theory Spec2Isabelle
  imports Complex_Main "HOL-Library.AList"
begin

chapter \<open>Cortex: archiving, batch embedding, configuration merge and rank fusion\<close>

text \<open>
  The archive module (\<open>parseTranscript\<close>, \<open>extractTextContent\<close>, \<open>shouldExclude\<close>,
  \<open>isValuable\<close>, \<open>extractChunks\<close>, \<open>archiveSession\<close>, \<open>getSessionId\<close>), \<open>embedBatch\<close> of the
  embeddings module and \<open>deepMerge\<close>, \<open>loadConfig\<close> and \<open>applyPreset\<close> of the config module are
  modelled from the TypeScript sources. What these functions take from outside (\<open>JSON.parse\<close>,
  the file system, the conversion of a string or an object to a number, the rounding of the
  double arithmetic, the embedding model, the operations of the database module) is a parameter
  of the model. The database module and the search module are not among the sources: a store
  and the rank fusion are modelled from the specification, in sections of their own.
\<close>

section \<open>JavaScript values and strings\<close>

text \<open>
  A JavaScript string is modelled as a list of code units (\<open>string\<close>, so code units below
  256); \<open>length\<close> is the \<open>.length\<close> of the source.

  A JavaScript number is a finite value, one of the two infinities or \<open>NaN\<close>. A finite number
  is given by its value as a real, the value of a double. The sign of a zero is not kept
  (nothing here divides).
\<close>

datatype number =
    Finite real
  | PosInfinity
  | NegInfinity
  | NaN

text \<open>The comparison \<open>a < b\<close> of two numbers: false when either is \<open>NaN\<close>.\<close>

fun number_lt :: "number \<Rightarrow> number \<Rightarrow> bool" where
  "number_lt NaN b = False"
| "number_lt a NaN = False"
| "number_lt (Finite x) (Finite y) = (x < y)"
| "number_lt (Finite x) PosInfinity = True"
| "number_lt (Finite x) NegInfinity = False"
| "number_lt PosInfinity b = False"
| "number_lt NegInfinity NegInfinity = False"
| "number_lt NegInfinity b = True"

text \<open>
  The sum \<open>a + b\<close> of two numbers. The double arithmetic rounds the exact sum of two finite
  numbers to the nearest double; this rounding is the parameter \<open>to_double\<close>. The sum of two
  whole numbers is taken as it is: the double arithmetic is exact on the whole numbers up to
  \<open>2^53\<close>, and in the one sum of the program, \<open>i + batchSize\<close>, either \<open>i\<close> is 0 or both
  numbers are below the length of an array.
\<close>

definition whole :: "real \<Rightarrow> bool" where
  "whole x = (x = real_of_int \<lfloor>x\<rfloor>)"

fun number_add :: "(real \<Rightarrow> number) \<Rightarrow> number \<Rightarrow> number \<Rightarrow> number" where
  "number_add to_double NaN b = NaN"
| "number_add to_double a NaN = NaN"
| "number_add to_double (Finite x) (Finite y) = (if whole x \<and> whole y then Finite (x + y) else to_double (x + y))"
| "number_add to_double PosInfinity NegInfinity = NaN"
| "number_add to_double NegInfinity PosInfinity = NaN"
| "number_add to_double PosInfinity b = PosInfinity"
| "number_add to_double NegInfinity b = NegInfinity"
| "number_add to_double (Finite x) b = b"

text \<open>\<open>Math.min\<close> of two numbers: \<open>NaN\<close> when either is \<open>NaN\<close>.\<close>

fun Math_min :: "number \<Rightarrow> number \<Rightarrow> number" where
  "Math_min NaN b = NaN"
| "Math_min a NaN = NaN"
| "Math_min a b = (if number_lt b a then b else a)"

text \<open>
  A value of type \<open>unknown\<close> (the result of \<open>JSON.parse\<close>, or of a property read) is a
  \<open>jsval\<close>. The own enumerable fields of an object are kept in an association list with
  distinct keys, in the object's own property order: the keys that are array indices first, in
  ascending order, then the other keys in the order of their creation. The prototype of an
  object is not part of the model; every property that the program reads from an object is an
  own field of it or is absent from its prototype chain.
\<close>

datatype jsval =
    Undefined
  | Null
  | Bool bool
  | Num number
  | Str string
  | Arr "jsval list"
  | Obj "(string \<times> jsval) list"

datatype error =
    TypeError
  | SyntaxError
  | ReadError
  | ProviderUnavailable

text \<open>Truthiness, as used by \<open>&&\<close>, \<open>||\<close>, \<open>if\<close> and \<open>?:\<close>.\<close>

fun truthy :: "jsval \<Rightarrow> bool" where
  "truthy Undefined = False"
| "truthy Null = False"
| "truthy (Bool b) = b"
| "truthy (Num x) = (x \<noteq> Finite 0 \<and> x \<noteq> NaN)"
| "truthy (Str s) = (s \<noteq> [])"
| "truthy (Arr xs) = True"
| "truthy (Obj fs) = True"

text \<open>
  A property read \<open>v.key\<close> for the keys the program reads (\<open>role\<close>, \<open>content\<close>, \<open>type\<close>,
  \<open>message\<close>, \<open>timestamp\<close>, \<open>text\<close>, \<open>archive\<close>, \<open>minContentLength\<close>, none of which
  is a built-in property of a primitive, of an array or of \<open>Object.prototype\<close>): it throws a
  TypeError on \<open>undefined\<close> and \<open>null\<close>, finds the field of an object, and is \<open>undefined\<close>
  everywhere else.
\<close>

fun get_prop :: "jsval \<Rightarrow> string \<Rightarrow> error + jsval" where
  "get_prop Undefined key = Inl TypeError"
| "get_prop Null key = Inl TypeError"
| "get_prop (Obj fs) key = (case map_of fs key of Some v \<Rightarrow> Inr v | None \<Rightarrow> Inr Undefined)"
| "get_prop v key = Inr Undefined"

text \<open>
  White space as \<open>String.prototype.trim\<close> and the regular expression class \<open>\s\<close> see it, among
  the code units below 256: tab, line feed, vertical tab, form feed, carriage return, space and
  the no-break space.
\<close>

definition is_ws :: "char \<Rightarrow> bool" where
  "is_ws c = (c \<in> set [CHR 0x09, CHR 0x0A, CHR 0x0B, CHR 0x0C, CHR 0x0D, CHR 0x20, CHR 0xA0])"

definition js_trim :: "string \<Rightarrow> string" where
  "js_trim s = rev (dropWhile is_ws (rev (dropWhile is_ws s)))"

text \<open>\<open>Array.prototype.join\<close> on an array of strings.\<close>

fun js_join :: "string \<Rightarrow> string list \<Rightarrow> string" where
  "js_join sep [] = []"
| "js_join sep [x] = x"
| "js_join sep (x # y # ys) = x @ sep @ js_join sep (y # ys)"

section \<open>Content extraction (archive module)\<close>

text \<open>
  The loop of \<open>extractTextContent\<close> over the items of an array, with the array \<open>textParts\<close>
  it pushes to. An array item has \<open>typeof 'object'\<close> too, and has no \<open>text\<close> property.
\<close>

fun collect_text_parts :: "jsval list \<Rightarrow> string list \<Rightarrow> string list" where
  "collect_text_parts [] textParts = textParts"
| "collect_text_parts (item # rest) textParts =
     (case item of
        Str s \<Rightarrow> collect_text_parts rest (textParts @ [s])
      | Obj fs \<Rightarrow>
          (case map_of fs ''text'' of
             Some (Str t) \<Rightarrow> collect_text_parts rest (textParts @ [t])
           | _ \<Rightarrow> collect_text_parts rest textParts)
      | _ \<Rightarrow> collect_text_parts rest textParts)"

definition extractTextContent :: "jsval \<Rightarrow> string" where
  "extractTextContent content =
     (case content of
        Str s \<Rightarrow> s
      | Arr items \<Rightarrow> js_join [CHR 0x0A] (collect_text_parts items [])
      | _ \<Rightarrow> [])"

text \<open>
  The extractor as the specification words it: of a sequence, exactly the parts that carry a
  \<open>text\<close> attribute contribute, each with its text.
\<close>

definition carries_text :: "jsval \<Rightarrow> bool" where
  "carries_text item = (case item of Obj fs \<Rightarrow> map_of fs ''text'' \<noteq> None | _ \<Rightarrow> False)"

definition text_attribute :: "jsval \<Rightarrow> string" where
  "text_attribute item =
     (case item of
        Obj fs \<Rightarrow> (case map_of fs ''text'' of Some (Str t) \<Rightarrow> t | _ \<Rightarrow> [])
      | _ \<Rightarrow> [])"

definition spec_extractTextContent :: "jsval \<Rightarrow> string" where
  "spec_extractTextContent content =
     (case content of
        Str s \<Rightarrow> s
      | Arr items \<Rightarrow> js_join [CHR 0x0A] (map text_attribute (filter carries_text items))
      | _ \<Rightarrow> [])"

text \<open>What one item of a sequence contributes in the source: nothing, or one string.\<close>

definition item_text :: "jsval \<Rightarrow> string list" where
  "item_text item =
     (case item of
        Str s \<Rightarrow> [s]
      | Obj fs \<Rightarrow> (case map_of fs ''text'' of Some (Str t) \<Rightarrow> [t] | _ \<Rightarrow> [])
      | _ \<Rightarrow> [])"

section \<open>Splitting strings with a regular expression\<close>

text \<open>
  \<open>String.prototype.split\<close> with a regular expression that never matches the empty string.
  The matcher \<open>m\<close> is given the code unit before the position (for a lookbehind) and the rest
  of the string from the position on, and returns the length of the match there (0 when there
  is none). The string is scanned from the left; a match closes the current piece and the scan
  resumes behind it; the rest of the string is the last piece. The empty string gives one empty
  piece.
\<close>

function split_at :: "(char option \<Rightarrow> string \<Rightarrow> nat) \<Rightarrow> char option \<Rightarrow> string \<Rightarrow> string \<Rightarrow> string list" where
  "split_at m prev cur [] = [cur]"
| "split_at m prev cur (c # cs) =
     (if 0 < m prev (c # cs)
      then cur # split_at m (Some (last (take (m prev (c # cs)) (c # cs)))) [] (drop (m prev (c # cs)) (c # cs))
      else split_at m (Some c) (cur @ [c]) cs)"
  by pat_completeness auto
termination
  by (relation "measure (\<lambda>(m, prev, cur, s). length s)") auto

definition js_split :: "(char option \<Rightarrow> string \<Rightarrow> nat) \<Rightarrow> string \<Rightarrow> string list" where
  "js_split m s = split_at m None [] s"

text \<open>The pattern \<open>/\n\n+/\<close>: two or more line feeds, as many as there are.\<close>

definition match_blank_lines :: "char option \<Rightarrow> string \<Rightarrow> nat" where
  "match_blank_lines prev s =
     (let k = length (takeWhile (\<lambda>c. c = CHR 0x0A) s) in if 2 \<le> k then k else 0)"

text \<open>The pattern \<open>/(?<=[.!?])\s+/\<close>: white space behind a full stop, \<open>!\<close> or \<open>?\<close>.\<close>

definition match_sentence_break :: "char option \<Rightarrow> string \<Rightarrow> nat" where
  "match_sentence_break prev s =
     (if prev = Some CHR ''.'' \<or> prev = Some CHR ''!'' \<or> prev = Some CHR ''?''
      then length (takeWhile is_ws s) else 0)"

text \<open>The pattern \<open>/\s+/\<close>.\<close>

definition match_ws :: "char option \<Rightarrow> string \<Rightarrow> nat" where
  "match_ws prev s = length (takeWhile is_ws s)"

section \<open>Chunking (archive module)\<close>

definition MIN_CONTENT_LENGTH :: nat where
  "MIN_CONTENT_LENGTH = 50"

text \<open>
  The loop of \<open>extractChunks\<close> over the sentences of a long paragraph, with the variables
  \<open>currentChunk\<close> and \<open>chunks\<close> it updates; it returns both.
\<close>

fun accumulate_sentences :: "string list \<Rightarrow> string \<Rightarrow> string list \<Rightarrow> string \<times> string list" where
  "accumulate_sentences [] currentChunk chunks = (currentChunk, chunks)"
| "accumulate_sentences (sentence # rest) currentChunk chunks =
     (if length currentChunk + length sentence > 800
      then accumulate_sentences rest sentence
             (if length currentChunk \<ge> MIN_CONTENT_LENGTH then chunks @ [js_trim currentChunk] else chunks)
      else accumulate_sentences rest
             (currentChunk @ (if currentChunk \<noteq> [] then '' '' else []) @ sentence) chunks)"

text \<open>The long-paragraph path: the sentence loop, then the flush of the remainder.\<close>

definition split_long_paragraph :: "string \<Rightarrow> string list \<Rightarrow> string list" where
  "split_long_paragraph trimmed chunks =
     (case accumulate_sentences (js_split match_sentence_break trimmed) [] chunks of
        (currentChunk, chunks') \<Rightarrow>
          if length currentChunk \<ge> MIN_CONTENT_LENGTH then chunks' @ [js_trim currentChunk] else chunks')"

text \<open>The body of the loop of \<open>extractChunks\<close> over the paragraphs.\<close>

definition chunk_paragraph :: "string list \<Rightarrow> string \<Rightarrow> string list" where
  "chunk_paragraph chunks para =
     (let trimmed = js_trim para in
      if length trimmed < MIN_CONTENT_LENGTH then chunks
      else if length trimmed > 1000 then split_long_paragraph trimmed chunks
      else chunks @ [trimmed])"

definition extractChunks :: "string \<Rightarrow> string list" where
  "extractChunks content = foldl chunk_paragraph [] (js_split match_blank_lines content)"

section \<open>Regular expressions\<close>

text \<open>
  The patterns of the archive module use literals, character classes, alternation, \<open>?\<close>, \<open>+\<close>
  and \<open>*\<close> only, so \<open>RegExp.prototype.test\<close> is membership in a regular language: of the whole
  string for a pattern between \<open>^\<close> and \<open>$\<close>, of some substring otherwise. Membership is
  decided with derivatives.
\<close>

datatype rx =
    Zero
  | Eps
  | Sym "char \<Rightarrow> bool"
  | Alt rx rx
  | Seq rx rx
  | Star rx

fun nullable :: "rx \<Rightarrow> bool" where
  "nullable Zero = False"
| "nullable Eps = True"
| "nullable (Sym p) = False"
| "nullable (Alt r s) = (nullable r \<or> nullable s)"
| "nullable (Seq r s) = (nullable r \<and> nullable s)"
| "nullable (Star r) = True"

text \<open>Alternation and sequence that drop the empty language.\<close>

fun alt :: "rx \<Rightarrow> rx \<Rightarrow> rx" where
  "alt Zero s = s"
| "alt r Zero = r"
| "alt r s = Alt r s"

fun seq :: "rx \<Rightarrow> rx \<Rightarrow> rx" where
  "seq Zero s = Zero"
| "seq r Zero = Zero"
| "seq r s = Seq r s"

fun deriv :: "char \<Rightarrow> rx \<Rightarrow> rx" where
  "deriv c Zero = Zero"
| "deriv c Eps = Zero"
| "deriv c (Sym p) = (if p c then Eps else Zero)"
| "deriv c (Alt r s) = alt (deriv c r) (deriv c s)"
| "deriv c (Seq r s) =
     (if nullable r then alt (seq (deriv c r) s) (deriv c s) else seq (deriv c r) s)"
| "deriv c (Star r) = seq (deriv c r) (Star r)"

fun is_zero :: "rx \<Rightarrow> bool" where
  "is_zero Zero = True"
| "is_zero r = False"

text \<open>The whole string matches (a pattern written between \<open>^\<close> and \<open>$\<close>).\<close>

fun rx_full :: "rx \<Rightarrow> string \<Rightarrow> bool" where
  "rx_full r [] = nullable r"
| "rx_full r (c # cs) = (if is_zero r then False else rx_full (deriv c r) cs)"

text \<open>Some prefix of the string matches.\<close>

fun rx_prefix :: "rx \<Rightarrow> string \<Rightarrow> bool" where
  "rx_prefix r [] = nullable r"
| "rx_prefix r (c # cs) =
     (if nullable r then True else if is_zero r then False else rx_prefix (deriv c r) cs)"

text \<open>Some substring matches (a pattern with no anchor).\<close>

fun rx_search :: "rx \<Rightarrow> string \<Rightarrow> bool" where
  "rx_search r [] = nullable r"
| "rx_search r (c # cs) = (if rx_prefix r (c # cs) then True else rx_search r cs)"

text \<open>
  Literals. With the flag \<open>i\<close> a letter of the pattern matches itself in either case; the
  patterns are written in lower case.
\<close>

definition to_upper :: "char \<Rightarrow> char" where
  "to_upper c =
     (case map_of (zip ''abcdefghijklmnopqrstuvwxyz'' ''ABCDEFGHIJKLMNOPQRSTUVWXYZ'') c of
        Some u \<Rightarrow> u
      | None \<Rightarrow> c)"

definition lit :: "string \<Rightarrow> rx" where
  "lit s = foldr (\<lambda>c r. Seq (Sym (\<lambda>x. x = c)) r) s Eps"

definition lit_i :: "string \<Rightarrow> rx" where
  "lit_i s = foldr (\<lambda>c r. Seq (Sym (\<lambda>x. x = c \<or> x = to_upper c)) r) s Eps"

definition any_of :: "rx list \<Rightarrow> rx" where
  "any_of rs = foldr Alt rs Zero"

definition opt :: "rx \<Rightarrow> rx" where
  "opt r = Alt r Eps"

definition plus :: "rx \<Rightarrow> rx" where
  "plus r = Seq r (Star r)"

text \<open>The classes \<open>\d\<close> and \<open>\w\<close>.\<close>

definition is_digit :: "char \<Rightarrow> bool" where
  "is_digit c = (c \<in> set ''0123456789'')"

definition is_word_char :: "char \<Rightarrow> bool" where
  "is_word_char c =
     (c \<in> set ''abcdefghijklmnopqrstuvwxyzABCDEFGHIJKLMNOPQRSTUVWXYZ0123456789_'')"

section \<open>Content filtering (archive module)\<close>

text \<open>\<open>EXCLUDED_PATTERNS\<close>, each between \<open>^\<close> and \<open>$\<close>.\<close>

definition EXCLUDED_PATTERNS :: "rx list" where
  "EXCLUDED_PATTERNS =
     [Seq (any_of (map lit_i [''ok'', ''okay'', ''done'', ''yes'', ''no'', ''sure'', ''thanks'',
                              ''thank you'', ''got it'', ''understood'', ''alright'']))
          (opt (lit ''.'')),
      Seq (any_of (map lit_i [''hello'', ''hi'', ''hey'', ''bye'', ''goodbye''])) (opt (lit ''.'')),
      Seq (lit_i ''y'') (opt (lit_i ''es'')),
      Seq (lit_i ''n'') (opt (lit_i ''o'')),
      plus (Sym is_digit),
      plus (Sym (\<lambda>c. c = CHR ''.'' \<or> c = CHR ''!'' \<or> c = CHR ''?''))]"

text \<open>\<open>VALUABLE_PATTERNS\<close>, none anchored; the flag \<open>i\<close> where the source has it.\<close>

definition VALUABLE_PATTERNS :: "rx list" where
  "VALUABLE_PATTERNS =
     [Seq (lit_i ''function'') (Seq (plus (Sym is_ws)) (plus (Sym is_word_char))),
      Seq (lit_i ''class'') (Seq (plus (Sym is_ws)) (plus (Sym is_word_char))),
      Seq (lit_i ''interface'') (Seq (plus (Sym is_ws)) (plus (Sym is_word_char))),
      Seq (lit ''import'') (plus (Sym is_ws)),
      Seq (lit ''export'') (plus (Sym is_ws)),
      Seq (lit ''const'') (Seq (plus (Sym is_ws)) (Seq (plus (Sym is_word_char))
          (Seq (Star (Sym is_ws)) (lit ''='')))),
      Seq (lit ''let'') (Seq (plus (Sym is_ws)) (Seq (plus (Sym is_word_char))
          (Seq (Star (Sym is_ws)) (lit ''='')))),
      Seq (lit ''def'') (Seq (plus (Sym is_ws)) (plus (Sym is_word_char))),
      any_of (map lit_i [''error'', ''bug'', ''fix'', ''issue'', ''problem'']),
      any_of [Seq (lit_i ''implemente'') (opt (lit_i ''d'')), Seq (lit_i ''create'') (opt (lit_i ''d'')),
              Seq (lit_i ''adde'') (opt (lit_i ''d'')), Seq (lit_i ''update'') (opt (lit_i ''d'')),
              Seq (lit_i ''modifie'') (opt (lit_i ''d'')), Seq (lit_i ''remove'') (opt (lit_i ''d''))],
      any_of (map lit_i [''because'', ''since'', ''therefore'', ''however'', ''although''])]"

definition shouldExclude :: "string \<Rightarrow> bool" where
  "shouldExclude content =
     (let trimmed = js_trim content in
      if length trimmed < MIN_CONTENT_LENGTH then True
      else if list_ex (\<lambda>pattern. rx_full pattern trimmed) EXCLUDED_PATTERNS then True
      else False)"

definition isValuable :: "string \<Rightarrow> bool" where
  "isValuable content =
     (if list_ex (\<lambda>pattern. rx_search pattern content) VALUABLE_PATTERNS then True
      else (let words = length (js_split match_ws content) in words \<ge> 10))"

section \<open>Transcript parsing (archive module)\<close>

record TranscriptMessage =
  msg_role :: jsval
  msg_content :: string
  msg_timestamp :: jsval

text \<open>
  What the path names on disk: no file, a file that exists and cannot be read (the read stream
  fails, and nothing in \<open>parseTranscript\<close> handles that), or a file with its lines.
\<close>

datatype disk_file =
    Missing
  | Unreadable
  | Lines "string list"

text \<open>Sequencing of steps that may throw.\<close>

definition and_then :: "error + 'a \<Rightarrow> ('a \<Rightarrow> error + 'b) \<Rightarrow> error + 'b" where
  "and_then x f = (case x of Inl e \<Rightarrow> Inl e | Inr v \<Rightarrow> f v)"

text \<open>
  The body of the \<open>try\<close> block for one parsed line: the message to push, if any. The direct
  format (\<open>role\<close> and \<open>content\<close> on the line's object) is tried first, then the wrapped format
  (a \<open>type\<close> of \<open>message\<close>, \<open>user\<close> or \<open>assistant\<close> with a \<open>message\<close>).
\<close>

definition line_message :: "jsval \<Rightarrow> error + TranscriptMessage option" where
  "line_message parsed =
     and_then (get_prop parsed ''role'') (\<lambda>role.
     and_then (if truthy role then get_prop parsed ''content'' else Inr role) (\<lambda>direct.
       if truthy direct then
         (let content = extractTextContent direct in
          if content \<noteq> [] then
            and_then (get_prop parsed ''timestamp'') (\<lambda>timestamp.
              Inr (Some \<lparr>msg_role = role, msg_content = content, msg_timestamp = timestamp\<rparr>))
          else Inr None)
       else
         and_then (get_prop parsed ''type'') (\<lambda>ty.
         and_then (if ty = Str ''message'' \<or> ty = Str ''user'' \<or> ty = Str ''assistant''
                   then get_prop parsed ''message'' else Inr (Bool False)) (\<lambda>message.
           if truthy message then
             and_then (get_prop message ''content'') (\<lambda>wrapped.
               (let content = extractTextContent wrapped in
                if content \<noteq> [] then
                  and_then (get_prop message ''role'') (\<lambda>role'.
                  and_then (get_prop parsed ''timestamp'') (\<lambda>timestamp.
                    Inr (Some \<lparr>msg_role = role', msg_content = content, msg_timestamp = timestamp\<rparr>)))
                else Inr None))
           else Inr None))))"

text \<open>
  One step of the loop over the lines: a blank line is skipped; a line that \<open>JSON.parse\<close>
  rejects (\<open>None\<close>), or on which a property read throws, is skipped by the \<open>catch\<close>.
\<close>

definition parse_line :: "(string \<Rightarrow> jsval option) \<Rightarrow> TranscriptMessage list \<Rightarrow> string \<Rightarrow> TranscriptMessage list" where
  "parse_line JSON_parse messages line =
     (if js_trim line = [] then messages
      else case JSON_parse line of
             None \<Rightarrow> messages
           | Some parsed \<Rightarrow>
               (case line_message parsed of
                  Inl e \<Rightarrow> messages
                | Inr None \<Rightarrow> messages
                | Inr (Some m) \<Rightarrow> messages @ [m]))"

definition parseTranscript :: "(string \<Rightarrow> jsval option) \<Rightarrow> (string \<Rightarrow> disk_file) \<Rightarrow> string \<Rightarrow> error + TranscriptMessage list" where
  "parseTranscript JSON_parse fs transcriptPath =
     (case fs transcriptPath of
        Missing \<Rightarrow> Inr []
      | Unreadable \<Rightarrow> Inl ReadError
      | Lines ls \<Rightarrow> Inr (foldl (parse_line JSON_parse) [] ls))"

section \<open>Batch embedding (embeddings module)\<close>

definition PASSAGE_PREFIX :: string where
  "PASSAGE_PREFIX = ''passage: ''"

definition QUERY_PREFIX :: string where
  "QUERY_PREFIX = ''query: ''"

text \<open>
  The embedder \<open>pipe\<close> maps a text to its vector or fails; the vectors are of a type \<open>'e\<close>
  that is left open. The inner loop of \<open>embedBatch\<close> over one batch, pushing to \<open>results\<close>:
\<close>

fun embed_texts :: "(string \<Rightarrow> error + 'e) \<Rightarrow> string list \<Rightarrow> 'e list \<Rightarrow> error + 'e list" where
  "embed_texts pipe [] results = Inr results"
| "embed_texts pipe (text # rest) results =
     (case pipe text of
        Inl e \<Rightarrow> Inl e
      | Inr output \<Rightarrow> embed_texts pipe rest (results @ [output]))"

text \<open>
  \<open>Array.prototype.slice\<close> turns each of its two arguments into a position of the array: the
  number is truncated towards zero (\<open>NaN\<close> gives 0), a negative position counts from the end
  of the array, and the position is held between 0 and the length.
\<close>

fun relative_index :: "nat \<Rightarrow> number \<Rightarrow> nat" where
  "relative_index len NaN = 0"
| "relative_index len NegInfinity = 0"
| "relative_index len PosInfinity = len"
| "relative_index len (Finite x) =
     (let relative = (if 0 \<le> x then \<lfloor>x\<rfloor> else \<lceil>x\<rceil>)
      in if relative < 0 then nat (int len + relative) else min (nat relative) len)"

definition js_slice :: "'a list \<Rightarrow> number \<Rightarrow> number \<Rightarrow> 'a list" where
  "js_slice xs start stop =
     (let k = relative_index (length xs) start;
          final = relative_index (length xs) stop
      in take (final - k) (drop k xs))"

text \<open>
  The outer loop \<open>for (let i = 0; i < texts.length; i += batchSize)\<close>, with the variables
  \<open>i\<close> and \<open>results\<close>. The batch size is whatever number the caller gives, and the loop need
  not end (it does not when \<open>batchSize\<close> is 0), so it is a partial function: \<open>None\<close> is no
  return. The result is the list of the progress callback's invocations
  \<open>(completed, total)\<close> so far (none when no callback was supplied) and the embeddings or the
  error thrown.
\<close>

partial_function (option) embedBatch_loop ::
  "(real \<Rightarrow> number) \<Rightarrow> (string \<Rightarrow> error + 'e) \<Rightarrow> string \<Rightarrow> number \<Rightarrow> bool \<Rightarrow> string list \<Rightarrow> number
   \<Rightarrow> 'e list \<Rightarrow> (number \<times> nat) list \<Rightarrow> ((number \<times> nat) list \<times> (error + 'e list)) option" where
  "embedBatch_loop to_double pipe prefix batchSize onProgress texts i results calls =
     (if number_lt i (Finite (real (length texts))) then
        (let batch = js_slice texts i (number_add to_double i batchSize);
             prefixedBatch = map (\<lambda>t. prefix @ t) batch
         in case embed_texts pipe prefixedBatch results of
              Inl e \<Rightarrow> Some (calls, Inl e)
            | Inr results' \<Rightarrow>
                embedBatch_loop to_double pipe prefix batchSize onProgress texts
                  (number_add to_double i batchSize) results'
                  (if onProgress
                   then calls @ [(Math_min (number_add to_double i batchSize) (Finite (real (length texts))),
                                  length texts)]
                   else calls))
      else Some (calls, Inr results))"

declare embedBatch_loop.simps [code]

text \<open>
  \<open>embedBatch\<close>. The option \<open>batchSize\<close> defaults to 32 and \<open>isQuery\<close> to false when the
  caller leaves them out (\<open>None\<close> is an option left out); \<open>onProgress\<close> says whether a
  callback was supplied. \<open>initEmbedder\<close> gives the embedder or fails; \<open>to_double\<close> is the
  rounding of the double arithmetic.
\<close>

definition embedBatch ::
  "(real \<Rightarrow> number) \<Rightarrow> (error + (string \<Rightarrow> error + 'e)) \<Rightarrow> string list \<Rightarrow> number option \<Rightarrow> bool \<Rightarrow> bool
   \<Rightarrow> ((number \<times> nat) list \<times> (error + 'e list)) option" where
  "embedBatch to_double initEmbedder texts batchSize onProgress isQuery =
     (let bs = (case batchSize of None \<Rightarrow> Finite 32 | Some b \<Rightarrow> b);
          prefix = (if isQuery then QUERY_PREFIX else PASSAGE_PREFIX)
      in case initEmbedder of
           Inl e \<Rightarrow> Some ([], Inl e)
         | Inr pipe \<Rightarrow> embedBatch_loop to_double pipe prefix bs onProgress texts (Finite 0) [] [])"

section \<open>Configuration (config module)\<close>

text \<open>
  A configuration is the object that \<open>JSON.parse\<close> and \<open>deepMerge\<close> produce, so it is a
  \<open>jsval\<close>: nothing at run time holds it to the type \<open>Config\<close>.
\<close>

definition DEFAULT_STATUSLINE_CONFIG :: jsval where
  "DEFAULT_STATUSLINE_CONFIG =
     Obj [(''enabled'', Bool True), (''showFragments'', Bool True), (''showLastArchive'', Bool True),
          (''showContext'', Bool True), (''contextWarningThreshold'', Num (Finite 70))]"

definition DEFAULT_ARCHIVE_CONFIG :: jsval where
  "DEFAULT_ARCHIVE_CONFIG =
     Obj [(''autoOnCompact'', Bool True), (''projectScope'', Bool True), (''minContentLength'', Num (Finite 50))]"

definition DEFAULT_MONITOR_CONFIG :: jsval where
  "DEFAULT_MONITOR_CONFIG = Obj [(''tokenThreshold'', Num (Finite 70))]"

definition DEFAULT_CONFIG :: jsval where
  "DEFAULT_CONFIG =
     Obj [(''statusline'', DEFAULT_STATUSLINE_CONFIG), (''archive'', DEFAULT_ARCHIVE_CONFIG),
          (''monitor'', DEFAULT_MONITOR_CONFIG)]"

text \<open>The decimal numeral of an array index, as a property key.\<close>

function decimal :: "nat \<Rightarrow> string" where
  "decimal n = (if n < 10 then [''0123456789'' ! n] else decimal (n div 10) @ [''0123456789'' ! (n mod 10)])"
  by pat_completeness auto
termination
  by (relation "measure (\<lambda>n. n)") auto

definition indexed :: "jsval list \<Rightarrow> (string \<times> jsval) list" where
  "indexed xs = zip (map decimal [0..<length xs]) xs"

text \<open>
  The own enumerable properties of a value, as \<open>Object.keys\<close> and the spread \<open>{...v}\<close> list
  them: the fields of an object, the elements of an array and the characters of a string under
  their indices, nothing for a boolean or a number. \<open>Object.keys\<close> throws a TypeError on
  \<open>undefined\<close> and \<open>null\<close>, where the spread gives no property.
\<close>

fun own_properties :: "jsval \<Rightarrow> (string \<times> jsval) list" where
  "own_properties (Obj props) = props"
| "own_properties (Arr xs) = indexed xs"
| "own_properties (Str s) = indexed (map (\<lambda>c. Str [c]) s)"
| "own_properties v = []"

fun Object_keys :: "jsval \<Rightarrow> error + (string \<times> jsval) list" where
  "Object_keys Undefined = Inl TypeError"
| "Object_keys Null = Inl TypeError"
| "Object_keys v = Inr (own_properties v)"

text \<open>
  A property key that is an array index is the decimal numeral, without a leading zero, of a
  whole number below \<open>2^32 - 1\<close>. Two such numerals are compared as the numbers they denote:
  the shorter one is the smaller, and of two of the same length the one that is smaller at the
  first digit in which they differ.
\<close>

definition digit_value :: "char \<Rightarrow> nat" where
  "digit_value c = length (takeWhile (\<lambda>d. d \<noteq> c) ''0123456789'')"

fun digits_less :: "string \<Rightarrow> string \<Rightarrow> bool" where
  "digits_less (x # xs) (y # ys) = (digit_value x < digit_value y \<or> (x = y \<and> digits_less xs ys))"
| "digits_less xs ys = False"

definition index_less :: "string \<Rightarrow> string \<Rightarrow> bool" where
  "index_less a b = (length a < length b \<or> (length a = length b \<and> digits_less a b))"

definition is_array_index :: "string \<Rightarrow> bool" where
  "is_array_index key =
     (key \<noteq> [] \<and> list_all (\<lambda>c. c \<in> set ''0123456789'') key \<and> (hd key \<noteq> CHR ''0'' \<or> key = ''0'')
      \<and> index_less key ''4294967295'')"

text \<open>
  The assignment \<open>result[key] = value\<close> on an ordinary object with the own fields \<open>props\<close>
  whose prototype chain ends in \<open>Object.prototype\<close>. A field that the object has keeps its
  place and takes the value. Otherwise the key \<open>__proto__\<close> reaches the setter of
  \<open>Object.prototype\<close>, which changes the prototype at most and creates no field; a new array
  index is placed among the array indices, in ascending order; any other new key is placed
  last.
\<close>

fun replace_value :: "string \<Rightarrow> jsval \<Rightarrow> (string \<times> jsval) list \<Rightarrow> (string \<times> jsval) list" where
  "replace_value key v [] = []"
| "replace_value key v ((k, x) # rest) =
     (if k = key then (k, v) # rest else (k, x) # replace_value key v rest)"

fun insert_index :: "string \<Rightarrow> jsval \<Rightarrow> (string \<times> jsval) list \<Rightarrow> (string \<times> jsval) list" where
  "insert_index key v [] = [(key, v)]"
| "insert_index key v ((k, x) # rest) =
     (if is_array_index k \<and> index_less k key then (k, x) # insert_index key v rest
      else (key, v) # (k, x) # rest)"

definition set_property :: "string \<Rightarrow> jsval \<Rightarrow> (string \<times> jsval) list \<Rightarrow> (string \<times> jsval) list" where
  "set_property key v props =
     (if map_of props key \<noteq> None then replace_value key v props
      else if key = ''__proto__'' then props
      else if is_array_index key then insert_index key v props
      else props @ [(key, v)])"

text \<open>
  The loop of \<open>deepMerge\<close> over the keys of \<open>source\<close>, each with \<open>source[key]\<close>, updating
  \<open>result\<close>, which starts as a copy of \<open>target\<close>. A value of the source that is an object
  and not an array is merged into the target's value when that is an object or an array
  (\<open>typeof\<close> gives \<open>'object'\<close> for both); any other value that is not \<open>undefined\<close> is assigned.
  The read \<open>target[key]\<close> finds an own field of the target or, through the prototype chain,
  a property of \<open>Object.prototype\<close> or of \<open>Array.prototype\<close>; of these only \<open>__proto__\<close>
  has a value that \<open>typeof\<close> calls an object, and what is assigned to that key leaves the
  own fields as they are.
\<close>

fun deepMerge_fields ::
  "(string \<times> jsval) list \<Rightarrow> (string \<times> jsval) list \<Rightarrow> (string \<times> jsval) list \<Rightarrow> (string \<times> jsval) list" where
  "deepMerge_fields target result [] = result"
| "deepMerge_fields target result ((key, sourceValue) # rest) =
     (case sourceValue of
        Undefined \<Rightarrow> deepMerge_fields target result rest
      | Obj sourceFields \<Rightarrow>
          (case map_of target key of
             Some (Obj targetFields) \<Rightarrow>
               deepMerge_fields target
                 (set_property key (Obj (deepMerge_fields targetFields targetFields sourceFields)) result) rest
           | Some (Arr xs) \<Rightarrow>
               deepMerge_fields target
                 (set_property key (Obj (deepMerge_fields (indexed xs) (indexed xs) sourceFields)) result) rest
           | _ \<Rightarrow> deepMerge_fields target (set_property key sourceValue result) rest)
      | _ \<Rightarrow> deepMerge_fields target (set_property key sourceValue result) rest)"

definition deepMerge :: "jsval \<Rightarrow> jsval \<Rightarrow> error + jsval" where
  "deepMerge target source =
     (case Object_keys source of
        Inl e \<Rightarrow> Inl e
      | Inr entries \<Rightarrow>
          if entries \<noteq> [] \<and> (target = Undefined \<or> target = Null) then Inl TypeError
          else Inr (Obj (deepMerge_fields (own_properties target) (own_properties target) entries)))"

text \<open>
  The configuration file: absent, present and unreadable, or present with its text.
  \<open>loadConfig\<close> returns the defaults when the file is absent and when reading, parsing or
  merging throws.
\<close>

datatype config_file =
    NoConfig
  | UnreadableConfig
  | ConfigText string

definition loadConfig :: "(string \<Rightarrow> jsval option) \<Rightarrow> config_file \<Rightarrow> jsval" where
  "loadConfig parse file =
     (case file of
        NoConfig \<Rightarrow> DEFAULT_CONFIG
      | UnreadableConfig \<Rightarrow> DEFAULT_CONFIG
      | ConfigText content \<Rightarrow>
          (case parse content of
             None \<Rightarrow> DEFAULT_CONFIG
           | Some loaded \<Rightarrow>
               (case deepMerge DEFAULT_CONFIG loaded of
                  Inl e \<Rightarrow> DEFAULT_CONFIG
                | Inr config \<Rightarrow> config)))"

datatype ConfigPreset =
    Full
  | Essential
  | Minimal

fun CONFIG_PRESETS :: "ConfigPreset \<Rightarrow> jsval" where
  "CONFIG_PRESETS Full =
     Obj [(''statusline'',
             Obj [(''enabled'', Bool True), (''showFragments'', Bool True), (''showLastArchive'', Bool True),
                  (''showContext'', Bool True), (''contextWarningThreshold'', Num (Finite 70))]),
          (''archive'',
             Obj [(''autoOnCompact'', Bool True), (''projectScope'', Bool True), (''minContentLength'', Num (Finite 50))]),
          (''monitor'', Obj [(''tokenThreshold'', Num (Finite 70))])]"
| "CONFIG_PRESETS Essential =
     Obj [(''statusline'',
             Obj [(''enabled'', Bool True), (''showFragments'', Bool True), (''showLastArchive'', Bool False),
                  (''showContext'', Bool True), (''contextWarningThreshold'', Num (Finite 80))]),
          (''archive'',
             Obj [(''autoOnCompact'', Bool True), (''projectScope'', Bool True), (''minContentLength'', Num (Finite 100))]),
          (''monitor'', Obj [(''tokenThreshold'', Num (Finite 80))])]"
| "CONFIG_PRESETS Minimal =
     Obj [(''statusline'',
             Obj [(''enabled'', Bool False), (''showFragments'', Bool False), (''showLastArchive'', Bool False),
                  (''showContext'', Bool False), (''contextWarningThreshold'', Num (Finite 90))]),
          (''archive'',
             Obj [(''autoOnCompact'', Bool False), (''projectScope'', Bool True), (''minContentLength'', Num (Finite 50))]),
          (''monitor'', Obj [(''tokenThreshold'', Num (Finite 90))])]"

text \<open>\<open>applyPreset\<close>: the configuration it saves and returns.\<close>

definition applyPreset :: "ConfigPreset \<Rightarrow> error + jsval" where
  "applyPreset preset = deepMerge DEFAULT_CONFIG (CONFIG_PRESETS preset)"

text \<open>The read \<open>config.archive.minContentLength\<close> of \<open>archiveSession\<close>.\<close>

definition archive_minContentLength :: "jsval \<Rightarrow> error + jsval" where
  "archive_minContentLength config =
     and_then (get_prop config ''archive'') (\<lambda>archive. get_prop archive ''minContentLength'')"

section \<open>Archiving (archive module)\<close>

record ArchiveResult =
  archived :: nat
  skipped :: nat
  duplicates :: nat

text \<open>A \<open>Date\<close>: made from the message's timestamp, or the time of the run.\<close>

datatype date =
    DateOf jsval
  | Now

text \<open>The argument of \<open>insertMemory\<close>; \<open>embeddings[i]\<close> is \<open>None\<close> when the index is out of range.\<close>

record 'e Memory =
  mem_content :: string
  mem_contentHash :: string
  mem_embedding :: "'e option"
  mem_projectId :: "string option"
  mem_sourceSession :: string
  mem_timestamp :: date

text \<open>
  What \<open>archiveSession\<close> takes from outside the archive module: \<open>JSON.parse\<close>, the file
  system with the transcripts and with the configuration file that \<open>loadConfig\<close> reads, the
  conversion to a number that the language applies to a string, an array or an object (it
  throws a TypeError on an object that cannot be converted), the rounding of the double
  arithmetic, the two operations of the database module on a store of type \<open>'db\<close>
  (\<open>insertMemory\<close> returns the store, the id and \<open>isDuplicate\<close>), and the embedder.
\<close>

record ('db, 'e) env =
  JSON_parse :: "string \<Rightarrow> jsval option"
  read_file :: "string \<Rightarrow> disk_file"
  config_json :: config_file
  to_number :: "jsval \<Rightarrow> error + number"
  round_double :: "real \<Rightarrow> number"
  contentExists :: "'db \<Rightarrow> string \<Rightarrow> bool"
  insertMemory :: "'db \<Rightarrow> 'e Memory \<Rightarrow> 'db \<times> nat \<times> bool"
  initEmbedder :: "error + (string \<Rightarrow> error + 'e)"

text \<open>
  The conversion \<open>ToNumber\<close> that the comparison \<open>chunk.length < minLength\<close> applies to
  \<open>minLength\<close>, with the conversion of the strings, arrays and objects as a parameter.
\<close>

fun ToNumber :: "(jsval \<Rightarrow> error + number) \<Rightarrow> jsval \<Rightarrow> error + number" where
  "ToNumber convert Undefined = Inr NaN"
| "ToNumber convert Null = Inr (Finite 0)"
| "ToNumber convert (Bool b) = Inr (Finite (if b then 1 else 0))"
| "ToNumber convert (Num x) = Inr x"
| "ToNumber convert v = convert v"

text \<open>
  The loop over the chunks of one message: the three gates, then the duplicate pre-check. The
  first gate, \<open>chunk.length < minLength\<close>, converts \<open>minLength\<close> to a number, and throws
  when the conversion does.
\<close>

fun filter_chunks ::
  "('db, 'e) env \<Rightarrow> 'db \<Rightarrow> jsval \<Rightarrow> jsval \<Rightarrow> string list \<Rightarrow> ArchiveResult \<times> (string \<times> date) list
   \<Rightarrow> error + ArchiveResult \<times> (string \<times> date) list" where
  "filter_chunks env db minLength timestamp [] acc = Inr acc"
| "filter_chunks env db minLength timestamp (chunk # rest) (result, contentToArchive) =
     (case ToNumber (to_number env) minLength of
        Inl e \<Rightarrow> Inl e
      | Inr limit \<Rightarrow>
          if number_lt (Finite (real (length chunk))) limit then
            filter_chunks env db minLength timestamp rest
              (result\<lparr>skipped := skipped result + 1\<rparr>, contentToArchive)
          else if shouldExclude chunk then
            filter_chunks env db minLength timestamp rest
              (result\<lparr>skipped := skipped result + 1\<rparr>, contentToArchive)
          else if \<not> isValuable chunk then
            filter_chunks env db minLength timestamp rest
              (result\<lparr>skipped := skipped result + 1\<rparr>, contentToArchive)
          else if contentExists env db chunk then
            filter_chunks env db minLength timestamp rest
              (result\<lparr>duplicates := duplicates result + 1\<rparr>, contentToArchive)
          else
            filter_chunks env db minLength timestamp rest
              (result, contentToArchive @ [(chunk, if truthy timestamp then DateOf timestamp else Now)]))"

text \<open>The loop over the messages: only a message whose role is \<open>assistant\<close> is chunked.\<close>

fun collect_content ::
  "('db, 'e) env \<Rightarrow> 'db \<Rightarrow> jsval \<Rightarrow> TranscriptMessage list \<Rightarrow> ArchiveResult \<times> (string \<times> date) list
   \<Rightarrow> error + ArchiveResult \<times> (string \<times> date) list" where
  "collect_content env db minLength [] acc = Inr acc"
| "collect_content env db minLength (message # rest) acc =
     (if msg_role message \<noteq> Str ''assistant'' then collect_content env db minLength rest acc
      else case filter_chunks env db minLength (msg_timestamp message)
                  (extractChunks (msg_content message)) acc of
             Inl e \<Rightarrow> Inl e
           | Inr acc' \<Rightarrow> collect_content env db minLength rest acc')"

text \<open>\<open>getSessionId\<close>: the last segment of the path, without its final extension.\<close>

definition getSessionId :: "string \<Rightarrow> string" where
  "getSessionId transcriptPath =
     (let popped = last (js_split (\<lambda>prev s. if s \<noteq> [] \<and> hd s = CHR ''/'' then 1 else 0) transcriptPath);
          basename = (if popped \<noteq> [] then popped else transcriptPath);
          ext = takeWhile (\<lambda>c. c \<noteq> CHR ''.'') (rev basename)
      in if ext \<noteq> [] \<and> length ext < length basename
         then take (length basename - length ext - 1) basename
         else basename)"

text \<open>The loop that stores \<open>contentToArchive[i]\<close> with \<open>embeddings[i]\<close>, from index \<open>i\<close> on.\<close>

fun store_content ::
  "('db, 'e) env \<Rightarrow> string option \<Rightarrow> string \<Rightarrow> 'e list \<Rightarrow> (string \<times> date) list \<Rightarrow> nat
   \<Rightarrow> 'db \<times> ArchiveResult \<Rightarrow> 'db \<times> ArchiveResult" where
  "store_content env projectId sessionId embeddings [] i acc = acc"
| "store_content env projectId sessionId embeddings ((content, timestamp) # rest) i (db, result) =
     (case insertMemory env db
             \<lparr>mem_content = content, mem_contentHash = [],
              mem_embedding = (if i < length embeddings then Some (embeddings ! i) else None),
              mem_projectId = projectId, mem_sourceSession = sessionId,
              mem_timestamp = timestamp\<rparr> of
        (db', ident, isDuplicate) \<Rightarrow>
          store_content env projectId sessionId embeddings rest (i + 1)
            (db', if isDuplicate then result\<lparr>duplicates := duplicates result + 1\<rparr>
                  else result\<lparr>archived := archived result + 1\<rparr>))"

text \<open>
  \<open>archiveSession\<close>. A run that returns gives the \<open>ArchiveResult\<close> or the error thrown,
  and the store as the run leaves it (\<open>saveDb\<close> writes the store to disk and does not change
  it). \<open>None\<close> is a run that does not return. The invocations of the progress callback are
  those of \<open>embedBatch\<close> and are not kept here. The run first loads the configuration and
  reads \<open>config.archive.minContentLength\<close>, which throws a TypeError when \<open>config.archive\<close>
  is \<open>null\<close>; \<open>archive_messages\<close> is the part of the run behind the parsing of the
  transcript.
\<close>

definition archive_messages ::
  "('db, 'e) env \<Rightarrow> 'db \<Rightarrow> jsval \<Rightarrow> string \<Rightarrow> string option \<Rightarrow> bool \<Rightarrow> TranscriptMessage list
   \<Rightarrow> ((error + ArchiveResult) \<times> 'db) option" where
  "archive_messages env db minLength transcriptPath projectId onProgress messages =
     (let result = \<lparr>archived = 0, skipped = 0, duplicates = 0\<rparr>
      in if length messages = 0 then Some (Inr result, db)
         else
           (case collect_content env db minLength messages (result, []) of
              Inl e \<Rightarrow> Some (Inl e, db)
            | Inr (result', contentToArchive) \<Rightarrow>
                if length contentToArchive = 0 then Some (Inr result', db)
                else
                  (case embedBatch (round_double env) (initEmbedder env) (map fst contentToArchive) None
                          onProgress False of
                     None \<Rightarrow> None
                   | Some (calls, Inl e) \<Rightarrow> Some (Inl e, db)
                   | Some (calls, Inr embeddings) \<Rightarrow>
                       (case store_content env projectId (getSessionId transcriptPath)
                               embeddings contentToArchive 0 (db, result') of
                          (db', result'') \<Rightarrow> Some (Inr result'', db')))))"

definition archiveSession ::
  "('db, 'e) env \<Rightarrow> 'db \<Rightarrow> string \<Rightarrow> string option \<Rightarrow> bool \<Rightarrow> ((error + ArchiveResult) \<times> 'db) option" where
  "archiveSession env db transcriptPath projectId onProgress =
     (let config = loadConfig (JSON_parse env) (config_json env)
      in case archive_minContentLength config of
           Inl e \<Rightarrow> Some (Inl e, db)
         | Inr configured \<Rightarrow>
             (let minLength = (if truthy configured then configured
                               else Num (Finite (real MIN_CONTENT_LENGTH)))
              in case parseTranscript (JSON_parse env) (read_file env) transcriptPath of
                   Inl e \<Rightarrow> Some (Inl e, db)
                 | Inr messages \<Rightarrow>
                     archive_messages env db minLength transcriptPath projectId onProgress messages))"

section \<open>The store\<close>

text \<open>
  Modelled from the spec: the database module is not among the sources. A fragment and the
  store are as section 3 of the specification describes them; an id is never reused.
\<close>

record 'e Fragment =
  frag_id :: nat
  frag_content :: string
  frag_contentHash :: string
  frag_embedding :: "'e option"
  frag_projectId :: "string option"
  frag_sourceSession :: string
  frag_timestamp :: date

record 'e Store =
  fragments :: "'e Fragment list"
  last_id :: nat

text \<open>
  Modelled from the spec: \<open>contentExists\<close> of the database module, which is not among the
  sources. By section 4.3 it is true if a fragment with the same content hash exists. The
  content hash, a deterministic digest of the normalised content, is the parameter \<open>hash\<close>.
\<close>

definition store_contentExists :: "(string \<Rightarrow> string) \<Rightarrow> 'e Store \<Rightarrow> string \<Rightarrow> bool" where
  "store_contentExists hash st content =
     list_ex (\<lambda>f. frag_contentHash f = hash content) (fragments st)"

text \<open>
  Modelled from the spec: \<open>insertMemory\<close> of the database module, which is not among the
  sources. By section 4.3 it computes the content hash; if a fragment with that hash exists it
  returns \<open>isDuplicate = true\<close> and creates no row; otherwise it creates the fragment with a
  fresh id and returns \<open>isDuplicate = false\<close>.
\<close>

definition store_insert :: "(string \<Rightarrow> string) \<Rightarrow> 'e Store \<Rightarrow> 'e Memory \<Rightarrow> 'e Store \<times> nat \<times> bool" where
  "store_insert hash st m =
     (case find (\<lambda>f. frag_contentHash f = hash (mem_content m)) (fragments st) of
        Some f \<Rightarrow> (st, frag_id f, True)
      | None \<Rightarrow>
          (st\<lparr>fragments := fragments st @
                 [\<lparr>frag_id = last_id st + 1, frag_content = mem_content m,
                   frag_contentHash = hash (mem_content m), frag_embedding = mem_embedding m,
                   frag_projectId = mem_projectId m, frag_sourceSession = mem_sourceSession m,
                   frag_timestamp = mem_timestamp m\<rparr>],
               last_id := last_id st + 1\<rparr>,
           last_id st + 1, False))"

section \<open>Rank fusion\<close>

text \<open>
  The search module (\<open>hybridSearch\<close> and its fusion step) is not among the sources; this
  section follows section 4.6 of the specification. Scores are real numbers here, timestamps
  are milliseconds, fragments are named by their ids.
\<close>

text \<open>
  Modelled from the spec: the constants of the search module, which is not among the sources:
  \<open>k = 60\<close>, \<open>halfLifeDays = 7\<close>, and the default limit of 5 results.
\<close>

definition RRF_K :: real where
  "RRF_K = 60"

definition HALF_LIFE_DAYS :: real where
  "HALF_LIFE_DAYS = 7"

definition DEFAULT_LIMIT :: nat where
  "DEFAULT_LIMIT = 5"

text \<open>
  Modelled from the spec: the rank lookup of the search module, which is not among the sources.
  It gives the position of an id in a ranked list whose head has position \<open>r\<close>; the positions
  of section 4.6 are 1-indexed.
\<close>

fun rank_in :: "nat \<Rightarrow> nat list \<Rightarrow> nat \<Rightarrow> nat option" where
  "rank_in fid [] r = None"
| "rank_in fid (x # xs) r = (if x = fid then Some r else rank_in fid xs (r + 1))"

text \<open>
  Modelled from the spec: the contribution of one ranked list, in the search module, which is
  not among the sources. A fragment at position \<open>r\<close> contributes \<open>1 / (k + r)\<close>; a fragment
  absent from the list contributes 0.
\<close>

definition contribution :: "nat list \<Rightarrow> nat \<Rightarrow> real" where
  "contribution ranked fid =
     (case rank_in fid ranked 1 of None \<Rightarrow> 0 | Some r \<Rightarrow> 1 / (RRF_K + real r))"

text \<open>
  Modelled from the spec: the recency decay of the search module, which is not among the
  sources. The age runs from the fragment's timestamp to the time of the query, and the decay
  factor is \<open>2^(-ageInDays / halfLifeDays)\<close>.
\<close>

definition ageInDays :: "real \<Rightarrow> real \<Rightarrow> real" where
  "ageInDays now timestamp = (now - timestamp) / 86400000"

definition recency_decay :: "real \<Rightarrow> real \<Rightarrow> real" where
  "recency_decay now timestamp = 2 powr (- ageInDays now timestamp / HALF_LIFE_DAYS)"

text \<open>
  Modelled from the spec: \<open>SearchResult\<close> with its source tag, as section 3 of the
  specification describes it; the search module is not among the sources.
\<close>

datatype source =
    Vector
  | Keyword
  | Hybrid

record SearchResult =
  res_id :: nat
  res_score :: real
  res_content :: string
  res_source :: source
  res_timestamp :: real
  res_projectId :: "string option"

text \<open>
  Modelled from the spec: what the store holds of a fragment, as far as a result needs it (the
  database module is not among the sources).
\<close>

record FragmentRow =
  row_content :: string
  row_timestamp :: real
  row_projectId :: "string option"

text \<open>
  Modelled from the spec: the result for one fragment, in the search module, which is not among
  the sources. The fused base score is the sum of the contributions of the two lists; it is
  multiplied by the decay factor. The source tag is \<open>hybrid\<close> for a fragment of both lists.
\<close>

definition fused_result :: "real \<Rightarrow> (nat \<Rightarrow> FragmentRow) \<Rightarrow> nat list \<Rightarrow> nat list \<Rightarrow> nat \<Rightarrow> SearchResult" where
  "fused_result now rows keywordRanked vectorRanked fid =
     \<lparr>res_id = fid,
      res_score = (contribution keywordRanked fid + contribution vectorRanked fid)
                    * recency_decay now (row_timestamp (rows fid)),
      res_content = row_content (rows fid),
      res_source = (if fid \<in> set keywordRanked \<and> fid \<in> set vectorRanked then Hybrid
                    else if fid \<in> set vectorRanked then Vector else Keyword),
      res_timestamp = row_timestamp (rows fid),
      res_projectId = row_projectId (rows fid)\<rparr>"

text \<open>
  Modelled from the spec: the order of the results, in the search module, which is not among
  the sources: descending by the decayed score, ties broken by the more recent timestamp, then
  by the lower id. \<open>outranks a b\<close> places \<open>a\<close> no later than \<open>b\<close>.
\<close>

definition outranks :: "SearchResult \<Rightarrow> SearchResult \<Rightarrow> bool" where
  "outranks a b =
     (res_score a > res_score b
      \<or> (res_score a = res_score b
          \<and> (res_timestamp a > res_timestamp b
              \<or> (res_timestamp a = res_timestamp b \<and> res_id a \<le> res_id b))))"

text \<open>
  Modelled from the spec: the sorting of the results, in the search module, which is not among
  the sources, as an insertion sort for the order above.
\<close>

fun insert_ranked :: "SearchResult \<Rightarrow> SearchResult list \<Rightarrow> SearchResult list" where
  "insert_ranked a [] = [a]"
| "insert_ranked a (b # bs) = (if outranks a b then a # b # bs else b # insert_ranked a bs)"

text \<open>
  Modelled from the spec: the ranking of a list of results, in the search module, which is not
  among the sources: every result is inserted at its place.
\<close>

definition rank_all :: "SearchResult list \<Rightarrow> SearchResult list" where
  "rank_all results = foldr insert_ranked results []"

text \<open>
  Modelled from the spec: the fusion of the two ranked lists, in the search module, which is
  not among the sources: one result for each fragment of either list, ranked.
\<close>

definition fuse_all :: "real \<Rightarrow> (nat \<Rightarrow> FragmentRow) \<Rightarrow> nat list \<Rightarrow> nat list \<Rightarrow> SearchResult list" where
  "fuse_all now rows keywordRanked vectorRanked =
     rank_all (map (fused_result now rows keywordRanked vectorRanked)
                   (remdups (keywordRanked @ vectorRanked)))"

text \<open>
  Modelled from the spec: the result of a query, in the search module, which is not among the
  sources: the top 5 of the fused ranking by default, or as many as the caller's limit says.
\<close>

definition rankFusion ::
  "real \<Rightarrow> (nat \<Rightarrow> FragmentRow) \<Rightarrow> nat list \<Rightarrow> nat list \<Rightarrow> nat option \<Rightarrow> SearchResult list" where
  "rankFusion now rows keywordRanked vectorRanked limit =
     take (case limit of None \<Rightarrow> DEFAULT_LIMIT | Some l \<Rightarrow> l)
          (fuse_all now rows keywordRanked vectorRanked)"

section \<open>Predicates used in the statements\<close>

text \<open>A string that is not empty and neither starts nor ends with white space.\<close>

definition tidy :: "string \<Rightarrow> bool" where
  "tidy s = (s \<noteq> [] \<and> \<not> is_ws (hd s) \<and> \<not> is_ws (last s))"

text \<open>
  The string \<open>c\<close> ends with one of the sentences of \<open>S\<close>, and what precedes that sentence has
  at most 800 characters: \<open>c\<close> exceeds 800 characters by at most one trailing sentence.
\<close>

definition one_sentence_over :: "string set \<Rightarrow> string \<Rightarrow> bool" where
  "one_sentence_over S c = (\<exists>pre s. s \<in> S \<and> c = pre @ s \<and> length pre \<le> 800)"

text \<open>
  A chunk of the paragraphs \<open>paras\<close>: it has the minimum length, and it is a whole trimmed
  paragraph of at most 1000 characters, or it comes from a longer paragraph and exceeds 800
  characters by at most one trailing sentence of that paragraph.
\<close>

definition chunk_ok :: "string list \<Rightarrow> string \<Rightarrow> bool" where
  "chunk_ok paras c =
     (MIN_CONTENT_LENGTH \<le> length c \<and>
      (\<exists>para \<in> set paras.
         (length (js_trim para) \<le> 1000 \<and> c = js_trim para)
         \<or> (length (js_trim para) > 1000
             \<and> one_sentence_over (set (js_split match_sentence_break (js_trim para))) c)))"

text \<open>The comparison \<open>a \<le> b\<close> of two numbers: false when either is \<open>NaN\<close>.\<close>

definition number_le :: "number \<Rightarrow> number \<Rightarrow> bool" where
  "number_le a b = (a \<noteq> NaN \<and> b \<noteq> NaN \<and> \<not> number_lt b a)"

text \<open>The invocations of the progress callback all report at most the total \<open>n\<close>.\<close>

definition progress_ok :: "nat \<Rightarrow> (number \<times> nat) list \<Rightarrow> bool" where
  "progress_ok n calls =
     (\<forall>(completed, total) \<in> set calls. number_le completed (Finite (real total)) \<and> total = n)"

text \<open>A batch size that is a whole number above 0.\<close>

definition positive_whole :: "number \<Rightarrow> bool" where
  "positive_whole b = (case b of Finite x \<Rightarrow> 0 < x \<and> whole x | _ \<Rightarrow> False)"

text \<open>
  The chunk candidates of a run: the chunks of the messages whose role is \<open>assistant\<close>, in
  transcript order.
\<close>

definition is_assistant :: "TranscriptMessage \<Rightarrow> bool" where
  "is_assistant message = (msg_role message = Str ''assistant'')"

definition chunk_candidates :: "TranscriptMessage list \<Rightarrow> string list" where
  "chunk_candidates messages =
     concat (map (\<lambda>message. extractChunks (msg_content message)) (filter is_assistant messages))"

text \<open>
  The minimum length of a run: what \<open>archiveSession\<close> takes from the configuration it
  loads, or the error that the read throws.
\<close>

definition effective_minLength :: "('db, 'e) env \<Rightarrow> error + jsval" where
  "effective_minLength env =
     and_then (archive_minContentLength (loadConfig (JSON_parse env) (config_json env)))
       (\<lambda>configured. Inr (if truthy configured then configured
                         else Num (Finite (real MIN_CONTENT_LENGTH))))"

text \<open>A chunk that passes the three gates of \<open>archiveSession\<close>, for a minimum length \<open>limit\<close>.\<close>

definition passes_gates :: "number \<Rightarrow> string \<Rightarrow> bool" where
  "passes_gates limit chunk =
     (\<not> number_lt (Finite (real (length chunk))) limit \<and> \<not> shouldExclude chunk \<and> isValuable chunk)"

text \<open>The date given to the chunks of a message.\<close>

definition message_date :: "jsval \<Rightarrow> date" where
  "message_date timestamp = (if truthy timestamp then DateOf timestamp else Now)"

definition zero_result :: ArchiveResult where
  "zero_result = \<lparr>archived = 0, skipped = 0, duplicates = 0\<rparr>"

text \<open>
  The content that a run hands on to the embedder and the store: the chunks of the assistant
  messages that pass the gates and are not in the store yet, each with its date.
\<close>

definition new_content :: "('db, 'e) env \<Rightarrow> 'db \<Rightarrow> number \<Rightarrow> TranscriptMessage list \<Rightarrow> (string \<times> date) list" where
  "new_content env db limit messages =
     concat (map (\<lambda>message. map (\<lambda>c. (c, message_date (msg_timestamp message)))
                    (filter (\<lambda>c. passes_gates limit c \<and> \<not> contentExists env db c)
                            (extractChunks (msg_content message))))
                 (filter is_assistant messages))"

text \<open>What the embedding of the texts of a run gives: the embeddings, or the error thrown.\<close>

definition embed_outcome :: "('db, 'e) env \<Rightarrow> string list \<Rightarrow> error + 'e list" where
  "embed_outcome env texts =
     (case initEmbedder env of
        Inl e \<Rightarrow> Inl e
      | Inr pipe \<Rightarrow> embed_texts pipe (map (\<lambda>t. PASSAGE_PREFIX @ t) texts) [])"

text \<open>
  The value that \<open>deepMerge\<close> gives to a key whose value in the source is not \<open>undefined\<close>:
  the merge of the two values when the source's value is an object and not an array and the
  target's value is an object or an array, and the source's value otherwise.
\<close>

definition merged_value :: "jsval option \<Rightarrow> jsval \<Rightarrow> jsval" where
  "merged_value targetValue sourceValue =
     (case sourceValue of
        Obj sourceFields \<Rightarrow>
          (case targetValue of
             Some (Obj targetFields) \<Rightarrow> Obj (deepMerge_fields targetFields targetFields sourceFields)
           | Some (Arr xs) \<Rightarrow> Obj (deepMerge_fields (indexed xs) (indexed xs) sourceFields)
           | _ \<Rightarrow> sourceValue)
      | _ \<Rightarrow> sourceValue)"

text \<open>
  The own field under \<open>key\<close> of the merge of the fields \<open>source\<close> onto the fields \<open>target\<close>:
  the target's field when the source has no such key or has \<open>undefined\<close> there; no field for
  the key \<open>__proto__\<close> when the target has no such field; and the merged value otherwise.
\<close>

definition merged_field :: "(string \<times> jsval) list \<Rightarrow> (string \<times> jsval) list \<Rightarrow> string \<Rightarrow> jsval option" where
  "merged_field target source key =
     (case map_of source key of
        None \<Rightarrow> map_of target key
      | Some sourceValue \<Rightarrow>
          if sourceValue = Undefined \<or> (key = ''__proto__'' \<and> map_of target key = None)
          then map_of target key
          else Some (merged_value (map_of target key) sourceValue))"

text \<open>The contents of the fragments of a store.\<close>

definition stored_contents :: "'e Store \<Rightarrow> string set" where
  "stored_contents st = frag_content ` set (fragments st)"

section \<open>A sample run\<close>

text \<open>
  A transcript of three lines: an assistant message in the direct format, with one paragraph
  worth keeping and one of 55 letters, a user message in the wrapped format, and a line that is
  not JSON. \<open>JSON.parse\<close> is given by its value on these lines. The path \<open>/tmp\<close> exists and
  cannot be read as a file; no other path exists.
\<close>

definition demo_chunk :: string where
  "demo_chunk = ''We fixed the bug in the parser module of the project''"

definition dull_chunk :: string where
  "dull_chunk = ''aaaaaaaaaaaaaaaaaaaaaaaaaaaaaaaaaaaaaaaaaaaaaaaaaaaaaaa''"

definition demo_assistant :: TranscriptMessage where
  "demo_assistant =
     \<lparr>msg_role = Str ''assistant'',
      msg_content = demo_chunk @ [CHR 0x0A, CHR 0x0A] @ dull_chunk,
      msg_timestamp = Str ''2024-06-15T10:00:30.000Z''\<rparr>"

definition demo_user :: TranscriptMessage where
  "demo_user =
     \<lparr>msg_role = Str ''user'',
      msg_content = ''The parser fails with an error on every nested list input'',
      msg_timestamp = Undefined\<rparr>"

definition demo_parse :: "string \<Rightarrow> jsval option" where
  "demo_parse =
     map_of
       [(''line 1'',
         Obj [(''role'', Str ''assistant''),
              (''content'', Str (demo_chunk @ [CHR 0x0A, CHR 0x0A] @ dull_chunk)),
              (''timestamp'', Str ''2024-06-15T10:00:30.000Z'')]),
        (''line 2'',
         Obj [(''type'', Str ''user''),
              (''message'',
               Obj [(''role'', Str ''user''),
                    (''content'',
                     Arr [Obj [(''type'', Str ''text''),
                               (''text'', Str ''The parser fails with an error on every nested list input'')]])])])]"

definition demo_path :: string where
  "demo_path = ''/tmp/session.jsonl''"

definition demo_disk :: "string \<Rightarrow> disk_file" where
  "demo_disk p =
     (if p = demo_path then Lines [''line 1'', ''line 2'', ''not json'']
      else if p = ''/tmp'' then Unreadable
      else Missing)"

text \<open>
  The environment of the sample run: no configuration file, the store of section 4.3 with the
  content itself as its hash, and an embedder that returns the length of its input. Nothing in
  the sample run converts a string, an array or an object to a number, and no sum in it is
  rounded.
\<close>

definition demo_env :: "(nat Store, nat) env" where
  "demo_env =
     \<lparr>JSON_parse = demo_parse, read_file = demo_disk, config_json = NoConfig,
      to_number = (\<lambda>v. Inr NaN), round_double = Finite,
      contentExists = store_contentExists (\<lambda>c. c), insertMemory = store_insert (\<lambda>c. c),
      initEmbedder = Inr (\<lambda>t. Inr (length t))\<rparr>"

definition empty_store :: "nat Store" where
  "empty_store = \<lparr>fragments = [], last_id = 0\<rparr>"

definition demo_fragment :: "nat Fragment" where
  "demo_fragment =
     \<lparr>frag_id = 1, frag_content = demo_chunk, frag_contentHash = demo_chunk,
      frag_embedding = Some 61, frag_projectId = None, frag_sourceSession = ''session'',
      frag_timestamp = DateOf (Str ''2024-06-15T10:00:30.000Z'')\<rparr>"

definition demo_store :: "nat Store" where
  "demo_store = \<lparr>fragments = [demo_fragment], last_id = 1\<rparr>"

text \<open>The sample environment with an embedding model that cannot be loaded.\<close>

definition failing_env :: "(nat Store, nat) env" where
  "failing_env = demo_env\<lparr>initEmbedder := Inl ProviderUnavailable\<rparr>"

text \<open>
  The sample environment with a configuration file that holds the JSON object whose one field
  \<open>archive\<close> is \<open>null\<close> (the code unit \<open>0x22\<close> is the double quote).
\<close>

definition null_archive_text :: string where
  "null_archive_text = ''{'' @ [CHR 0x22] @ ''archive'' @ [CHR 0x22] @ '': null}''"

definition null_archive_env :: "(nat Store, nat) env" where
  "null_archive_env =
     demo_env\<lparr>JSON_parse := (\<lambda>content. if content = null_archive_text then Some (Obj [(''archive'', Null)])
                                else demo_parse content),
              config_json := ConfigText null_archive_text\<rparr>"

text \<open>
  A second transcript: one assistant message that holds the same paragraph twice and has no
  timestamp.
\<close>

definition repeat_assistant :: TranscriptMessage where
  "repeat_assistant =
     \<lparr>msg_role = Str ''assistant'',
      msg_content = demo_chunk @ [CHR 0x0A, CHR 0x0A] @ demo_chunk,
      msg_timestamp = Undefined\<rparr>"

definition repeat_parse :: "string \<Rightarrow> jsval option" where
  "repeat_parse =
     map_of
       [(''line 1'',
         Obj [(''role'', Str ''assistant''),
              (''content'', Str (demo_chunk @ [CHR 0x0A, CHR 0x0A] @ demo_chunk))])]"

definition repeat_env :: "(nat Store, nat) env" where
  "repeat_env = demo_env\<lparr>JSON_parse := repeat_parse\<rparr>"

definition repeat_store :: "nat Store" where
  "repeat_store = \<lparr>fragments = [demo_fragment\<lparr>frag_timestamp := Now\<rparr>], last_id = 1\<rparr>"

text \<open>
  A paragraph of 1202 characters made of three sentences of 400 characters, and a paragraph of
  60 characters.
\<close>

definition long_sentence :: string where
  "long_sentence = replicate 399 CHR ''a'' @ ''.''"

definition long_paragraph :: string where
  "long_paragraph = long_sentence @ '' '' @ long_sentence @ '' '' @ long_sentence"

definition sixty :: string where
  "sixty = ''aaaaaaaaaaaaaaaaaaaaaaaaaaaaaaaaaaaaaaaaaaaaaaaaaaaaaaaaaaaa''"

text \<open>
  What a configuration file parses to, in a second example: a section \<open>archive\<close> with a
  recognised and an unrecognised field, a field \<open>__proto__\<close> and an unrecognised field
  \<open>theme\<close>.
\<close>

definition demo_config :: jsval where
  "demo_config =
     Obj [(''archive'', Obj [(''minContentLength'', Num (Finite 100)), (''verbose'', Bool True)]),
          (''__proto__'', Obj [(''theme'', Str ''light'')]),
          (''theme'', Str ''dark'')]"

text \<open>The configuration that the preset \<open>essential\<close> gives.\<close>

definition essential_config :: jsval where
  "essential_config =
     Obj [(''statusline'',
             Obj [(''enabled'', Bool True), (''showFragments'', Bool True), (''showLastArchive'', Bool False),
                  (''showContext'', Bool True), (''contextWarningThreshold'', Num (Finite 80))]),
          (''archive'',
             Obj [(''autoOnCompact'', Bool True), (''projectScope'', Bool True), (''minContentLength'', Num (Finite 100))]),
          (''monitor'', Obj [(''tokenThreshold'', Num (Finite 80))])]"

text \<open>
  Three fragments for a query at day 7 (in milliseconds): fragment 1 is seven days old, the
  others are of the time of the query.
\<close>

definition demo_rows :: "nat \<Rightarrow> FragmentRow" where
  "demo_rows fid =
     \<lparr>row_content = ''fragment'', row_timestamp = (if fid = 1 then 0 else 604800000),
      row_projectId = None\<rparr>"

section \<open>Properties of content extraction\<close>

lemma collect_text_parts_concat:
  "collect_text_parts items acc = acc @ concat (map item_text items)"
proof (induction items arbitrary: acc)
  case Nil
  show ?case by simp
next
  case (Cons item rest)
  show ?case
    by (cases item) (simp_all add: item_text_def Cons.IH split: option.split jsval.split)
qed

text \<open>
  C7 (as amended). A string is returned unchanged. Of a sequence, the extractor returns, in
  order and joined by newlines, the elements that are themselves strings and the \<open>text\<close> of the
  object elements whose \<open>text\<close> attribute is a string; every other element is dropped, also an
  object whose \<open>text\<close> attribute is not a string. Any other content yields the empty string.
\<close>

theorem extractTextContent_characterisation:
  "extractTextContent (Str s) = s
   \<and> extractTextContent (Arr items) = js_join [CHR 0x0A] (concat (map item_text items))
   \<and> extractTextContent Undefined = []
   \<and> extractTextContent Null = []
   \<and> extractTextContent (Bool b) = []
   \<and> extractTextContent (Num x) = []
   \<and> extractTextContent (Obj fs) = []"
  by (simp add: extractTextContent_def collect_text_parts_concat)

text \<open>
  C7 as stated fails: a sequence holding the bare string \<open>hi\<close>, which carries no \<open>text\<close>
  attribute, is extracted to \<open>hi\<close>, where the parts carrying a \<open>text\<close> attribute give the
  empty string.
\<close>

theorem extractTextContent_bare_string_counterexample:
  "extractTextContent (Arr [Str ''hi'']) = ''hi''
   \<and> spec_extractTextContent (Arr [Str ''hi'']) = []
   \<and> extractTextContent (Arr [Str ''hi'']) \<noteq> spec_extractTextContent (Arr [Str ''hi''])"
  by (simp add: extractTextContent_def spec_extractTextContent_def carries_text_def)

section \<open>Properties of trimming and splitting\<close>

lemma last_dropWhile_nonempty: "dropWhile P xs \<noteq> [] \<Longrightarrow> last (dropWhile P xs) = last xs"
proof -
  assume n: "dropWhile P xs \<noteq> []"
  have "last xs = last (takeWhile P xs @ dropWhile P xs)" by simp
  also have "\<dots> = last (dropWhile P xs)" using n by (rule last_appendR)
  finally show ?thesis by simp
qed

lemma js_trim_tidy: "js_trim s = [] \<or> tidy (js_trim s)"
proof (cases "js_trim s = []")
  case True then show ?thesis by simp
next
  case False
  let ?d = "dropWhile is_ws s"
  let ?r = "dropWhile is_ws (rev ?d)"
  have r: "?r \<noteq> []" using False by (simp add: js_trim_def)
  have d: "?d \<noteq> []"
  proof
    assume "?d = []"
    with r show False by simp
  qed
  have "last (js_trim s) = hd ?r" using r by (simp add: js_trim_def last_rev)
  moreover have "\<not> is_ws (hd ?r)" using r by (rule hd_dropWhile)
  moreover have "hd (js_trim s) = last ?r" using r by (simp add: js_trim_def hd_rev)
  moreover have "last ?r = last (rev ?d)" using r by (rule last_dropWhile_nonempty)
  moreover have "last (rev ?d) = hd ?d" using d by (simp add: last_rev)
  moreover have "\<not> is_ws (hd ?d)" using d by (rule hd_dropWhile)
  ultimately show ?thesis using False by (simp add: tidy_def)
qed

lemma js_trim_id: "tidy s \<Longrightarrow> js_trim s = s"
proof -
  assume t: "tidy s"
  then have 1: "dropWhile is_ws s = s" by (cases s) (auto simp: tidy_def)
  have "rev s \<noteq> []" "\<not> is_ws (hd (rev s))" using t by (auto simp: tidy_def hd_rev)
  then have "dropWhile is_ws (rev s) = rev s" by (cases "rev s") auto
  with 1 show ?thesis by (simp add: js_trim_def)
qed

lemma match_sentence_break_no_ws:
  "s = [] \<or> \<not> is_ws (hd s) \<Longrightarrow> match_sentence_break prev s = 0"
  by (cases s) (auto simp: match_sentence_break_def)

lemma split_at_sentences_tidy:
  assumes "cur @ s \<noteq> []" and "\<not> is_ws (last (cur @ s))"
    and "cur \<noteq> [] \<Longrightarrow> prev = Some (last cur) \<and> \<not> is_ws (hd cur)"
    and "cur = [] \<Longrightarrow> \<not> is_ws (hd s) \<and> match_sentence_break prev s = 0"
  shows "\<forall>p \<in> set (split_at match_sentence_break prev cur s). tidy p"
  using assms
proof (induction match_sentence_break prev cur s rule: split_at.induct)
  case (1 prev cur)
  then show ?case by (auto simp: tidy_def)
next
  case (2 prev cur c cs)
  let ?n = "match_sentence_break prev (c # cs)"
  show ?case
  proof (cases "0 < ?n")
    case True
    then have stop: "prev = Some CHR ''.'' \<or> prev = Some CHR ''!'' \<or> prev = Some CHR ''?''"
      and n: "?n = length (takeWhile is_ws (c # cs))"
      by (auto simp: match_sentence_break_def split: if_splits)
    have curne: "cur \<noteq> []" using True "2.prems"(4) by auto
    then have pl: "prev = Some (last cur)" and hc: "\<not> is_ws (hd cur)" using "2.prems"(3) by auto
    have "\<not> is_ws (last cur)" using stop pl by (auto simp: is_ws_def)
    then have tcur: "tidy cur" using curne hc by (simp add: tidy_def)
    let ?rest = "drop ?n (c # cs)"
    have rest: "?rest = dropWhile is_ws (c # cs)" unfolding n by (rule dropWhile_eq_drop [symmetric])
    have lastcs: "\<not> is_ws (last (c # cs))" using "2.prems"(2) by simp
    have restne: "?rest \<noteq> []"
    proof
      assume "?rest = []"
      then have "\<forall>x \<in> set (c # cs). is_ws x" unfolding rest by (simp only: dropWhile_eq_Nil_conv)
      moreover have "last (c # cs) \<in> set (c # cs)" by (rule last_in_set) simp
      ultimately show False using lastcs by blast
    qed
    have dne: "dropWhile is_ws (c # cs) \<noteq> []" using restne rest by simp
    have "last (dropWhile is_ws (c # cs)) = last (c # cs)" using dne by (rule last_dropWhile_nonempty)
    then have lastrest: "\<not> is_ws (last ?rest)" using lastcs rest by simp
    have "\<not> is_ws (hd (dropWhile is_ws (c # cs)))" using dne by (rule hd_dropWhile)
    then have hdrest: "\<not> is_ws (hd ?rest)" using rest by simp
    have "\<forall>p \<in> set (split_at match_sentence_break (Some (last (take ?n (c # cs)))) [] ?rest). tidy p"
    proof (rule "2.hyps"(1) [OF True])
      show "[] @ ?rest \<noteq> []" using restne by simp
      show "\<not> is_ws (last ([] @ ?rest))" using lastrest by simp
      show "[] \<noteq> [] \<Longrightarrow> Some (last (take ?n (c # cs))) = Some (last []) \<and> \<not> is_ws (hd [])" by simp
      show "\<not> is_ws (hd ?rest) \<and> match_sentence_break (Some (last (take ?n (c # cs)))) ?rest = 0"
        using hdrest by (simp add: match_sentence_break_no_ws)
    qed
    then show ?thesis using True tcur by simp
  next
    case False
    have hd1: "\<not> is_ws (hd (cur @ [c]))"
    proof (cases "cur = []")
      case True
      then show ?thesis using "2.prems"(4) by simp
    next
      case False
      then show ?thesis using "2.prems"(3) by simp
    qed
    have "\<forall>p \<in> set (split_at match_sentence_break (Some c) (cur @ [c]) cs). tidy p"
    proof (rule "2.hyps"(2) [OF False])
      show "(cur @ [c]) @ cs \<noteq> []" by simp
      show "\<not> is_ws (last ((cur @ [c]) @ cs))" using "2.prems"(2) by simp
      show "Some c = Some (last (cur @ [c])) \<and> \<not> is_ws (hd (cur @ [c]))" using hd1 by simp
      show "cur @ [c] = [] \<Longrightarrow> \<not> is_ws (hd cs) \<and> match_sentence_break (Some c) cs = 0" by simp
    qed
    then show ?thesis using False by simp
  qed
qed

lemma sentences_tidy: "tidy t \<Longrightarrow> \<forall>p \<in> set (js_split match_sentence_break t). tidy p"
  unfolding js_split_def
  by (rule split_at_sentences_tidy) (auto simp: tidy_def match_sentence_break_def)

section \<open>Properties of the chunker\<close>

lemma accumulate_sentences_bound:
  assumes "\<forall>s \<in> set sentences. tidy s \<and> s \<in> S"
    and "cur = [] \<or> (tidy cur \<and> one_sentence_over S cur)"
    and "\<forall>c \<in> set chunks. Q c"
    and "\<And>c. tidy c \<Longrightarrow> one_sentence_over S c \<Longrightarrow> MIN_CONTENT_LENGTH \<le> length c \<Longrightarrow> Q c"
    and "accumulate_sentences sentences cur chunks = (cur', chunks')"
  shows "(cur' = [] \<or> (tidy cur' \<and> one_sentence_over S cur')) \<and> (\<forall>c \<in> set chunks'. Q c)"
  using assms
proof (induction sentences arbitrary: cur chunks)
  case Nil
  then show ?case by simp
next
  case (Cons sentence rest)
  have ts: "tidy sentence" and sS: "sentence \<in> S" using Cons.prems(1) by auto
  have rest: "\<forall>s \<in> set rest. tidy s \<and> s \<in> S" using Cons.prems(1) by simp
  have alone: "one_sentence_over S sentence"
    unfolding one_sentence_over_def using sS by (intro exI [of _ "[]"] exI [of _ sentence]) simp
  show ?case
  proof (cases "length cur + length sentence > 800")
    case True
    let ?chunks = "if length cur \<ge> MIN_CONTENT_LENGTH then chunks @ [js_trim cur] else chunks"
    have run: "accumulate_sentences rest sentence ?chunks = (cur', chunks')"
      using Cons.prems(5) True by simp
    have "\<forall>c \<in> set ?chunks. Q c"
    proof (cases "length cur \<ge> MIN_CONTENT_LENGTH")
      case True
      then have "cur \<noteq> []" by (auto simp: MIN_CONTENT_LENGTH_def)
      then have tc: "tidy cur" and oc: "one_sentence_over S cur" using Cons.prems(2) by auto
      have "Q cur" using tc oc True by (rule Cons.prems(4))
      then show ?thesis using True Cons.prems(3) tc by (simp add: js_trim_id)
    next
      case False
      then show ?thesis using Cons.prems(3) by simp
    qed
    with Cons.IH [OF rest _ _ Cons.prems(4) run] ts alone show ?thesis by blast
  next
    case False
    let ?cur = "cur @ (if cur \<noteq> [] then '' '' else []) @ sentence"
    have run: "accumulate_sentences rest ?cur chunks = (cur', chunks')"
      using Cons.prems(5) False by simp
    have "tidy ?cur \<and> one_sentence_over S ?cur"
    proof (cases "cur = []")
      case True
      then show ?thesis using ts alone by simp
    next
      case ne: False
      then have tc: "tidy cur" using Cons.prems(2) by auto
      have "sentence \<noteq> []" using ts by (simp add: tidy_def)
      then have "length (cur @ '' '') \<le> 800" using False by (cases sentence) auto
      then have "one_sentence_over S (cur @ '' '' @ sentence)"
        unfolding one_sentence_over_def using sS
        by (intro exI [of _ "cur @ '' ''"] exI [of _ sentence]) simp
      moreover have "tidy (cur @ '' '' @ sentence)" using tc ts by (auto simp: tidy_def)
      ultimately show ?thesis using ne by simp
    qed
    with Cons.IH [OF rest _ Cons.prems(3) Cons.prems(4) run] show ?thesis by blast
  qed
qed

lemma split_long_paragraph_ok:
  assumes "para \<in> set paras" and "length (js_trim para) > 1000" and "\<forall>c \<in> set chunks. chunk_ok paras c"
  shows "\<forall>c \<in> set (split_long_paragraph (js_trim para) chunks). chunk_ok paras c"
proof -
  let ?t = "js_trim para"
  let ?S = "set (js_split match_sentence_break ?t)"
  obtain cur' chunks' where run: "accumulate_sentences (js_split match_sentence_break ?t) [] chunks = (cur', chunks')"
    by (cases "accumulate_sentences (js_split match_sentence_break ?t) [] chunks") auto
  have "?t \<noteq> []" using assms(2) by auto
  then have "tidy ?t" using js_trim_tidy [of para] by simp
  then have sents: "\<forall>s \<in> ?S. tidy s \<and> s \<in> ?S" using sentences_tidy by blast
  have ok: "\<And>c. tidy c \<Longrightarrow> one_sentence_over ?S c \<Longrightarrow> MIN_CONTENT_LENGTH \<le> length c \<Longrightarrow> chunk_ok paras c"
    unfolding chunk_ok_def using assms(1,2) by blast
  have inv: "(cur' = [] \<or> (tidy cur' \<and> one_sentence_over ?S cur')) \<and> (\<forall>c \<in> set chunks'. chunk_ok paras c)"
    by (rule accumulate_sentences_bound [OF sents _ assms(3) ok run]) simp_all
  show ?thesis
  proof (cases "length cur' \<ge> MIN_CONTENT_LENGTH")
    case True
    then have "cur' \<noteq> []" by (auto simp: MIN_CONTENT_LENGTH_def)
    then have "tidy cur'" "one_sentence_over ?S cur'" using inv by auto
    then have "chunk_ok paras cur'" "js_trim cur' = cur'" using ok True js_trim_id by auto
    then show ?thesis using inv True run by (simp add: split_long_paragraph_def)
  next
    case False
    then show ?thesis using inv run by (simp add: split_long_paragraph_def)
  qed
qed

lemma chunk_paragraph_ok:
  assumes "para \<in> set paras" and "\<forall>c \<in> set chunks. chunk_ok paras c"
  shows "\<forall>c \<in> set (chunk_paragraph chunks para). chunk_ok paras c"
proof -
  consider (short) "length (js_trim para) < MIN_CONTENT_LENGTH"
    | (long) "length (js_trim para) > 1000"
    | (mid) "MIN_CONTENT_LENGTH \<le> length (js_trim para)" "length (js_trim para) \<le> 1000"
    by linarith
  then show ?thesis
  proof cases
    case short
    then show ?thesis using assms(2) by (simp add: chunk_paragraph_def)
  next
    case long
    then have "\<not> length (js_trim para) < MIN_CONTENT_LENGTH" by (simp add: MIN_CONTENT_LENGTH_def)
    then show ?thesis
      using long split_long_paragraph_ok [OF assms(1) long assms(2)] by (simp add: chunk_paragraph_def)
  next
    case mid
    then have "chunk_ok paras (js_trim para)" unfolding chunk_ok_def using assms(1) by blast
    then show ?thesis using mid assms(2) by (simp add: chunk_paragraph_def)
  qed
qed

lemma foldl_chunk_paragraph_ok:
  "set ps \<subseteq> set paras \<Longrightarrow> \<forall>c \<in> set chunks. chunk_ok paras c
   \<Longrightarrow> \<forall>c \<in> set (foldl chunk_paragraph chunks ps). chunk_ok paras c"
proof (induction ps arbitrary: chunks)
  case Nil
  then show ?case by simp
next
  case (Cons p ps)
  have "\<forall>c \<in> set (chunk_paragraph chunks p). chunk_ok paras c"
    using Cons.prems by (intro chunk_paragraph_ok) auto
  then show ?case using Cons.IH [of "chunk_paragraph chunks p"] Cons.prems(1) by simp
qed

lemma extractChunks_ok: "\<forall>c \<in> set (extractChunks content). chunk_ok (js_split match_blank_lines content) c"
  unfolding extractChunks_def by (rule foldl_chunk_paragraph_ok) simp_all

section \<open>Properties of batch embedding\<close>

lemma embed_texts_append:
  "embed_texts pipe (xs @ ys) results =
     (case embed_texts pipe xs results of Inl e \<Rightarrow> Inl e | Inr r \<Rightarrow> embed_texts pipe ys r)"
  by (induction xs arbitrary: results) (auto split: sum.split)



lemma relative_index_whole: "relative_index len (Finite (real k)) = min k len"
  by simp

lemma js_slice_whole: "js_slice xs (Finite (real i)) (Finite (real (i + b))) = take b (drop i xs)"
  using relative_index_whole [of "length xs" "i + b"] relative_index_whole [of "length xs" i]
  by (simp add: js_slice_def min_def del: relative_index.simps of_nat_add)

lemma number_le_whole: "number_le (Finite (real i)) (Finite (real n)) \<longleftrightarrow> i \<le> n"
  by (auto simp: number_le_def)

lemma embedBatch_loop_step:
  "embedBatch_loop to_double pipe prefix (Finite (real b)) onProgress texts (Finite (real i)) results calls =
     (if i < length texts then
        (case embed_texts pipe (map (\<lambda>t. prefix @ t) (take b (drop i texts))) results of
           Inl e \<Rightarrow> Some (calls, Inl e)
         | Inr results' \<Rightarrow>
             embedBatch_loop to_double pipe prefix (Finite (real b)) onProgress texts (Finite (real (i + b))) results'
               (if onProgress
                then calls @ [(Finite (real (min (i + b) (length texts))), length texts)]
                else calls))
      else Some (calls, Inr results))"
proof -
  have next_i: "number_add to_double (Finite (real i)) (Finite (real b)) = Finite (real (i + b))"
    by (simp add: whole_def)
  have least: "Math_min (Finite (real (i + b))) (Finite (real (length texts)))
                 = Finite (real (min (i + b) (length texts)))"
    by (simp add: min_def)
  show ?thesis
    by (subst embedBatch_loop.simps) (simp only: next_i js_slice_whole least Let_def number_lt.simps of_nat_less_iff)
qed

lemma embedBatch_loop_returns:
  assumes "0 < batchSize"
  shows "\<exists>new. embedBatch_loop to_double pipe prefix (Finite (real batchSize)) onProgress texts (Finite (real i)) results calls
            = Some (calls @ new, embed_texts pipe (map (\<lambda>t. prefix @ t) (drop i texts)) results)
          \<and> progress_ok (length texts) new
          \<and> (\<not> onProgress \<longrightarrow> new = [])
          \<and> (onProgress \<and> i < length texts
               \<and> (\<exists>rs. embed_texts pipe (map (\<lambda>t. prefix @ t) (drop i texts)) results = Inr rs)
               \<longrightarrow> new \<noteq> [] \<and> last new = (Finite (real (length texts)), length texts))"
proof (induction "length texts - i" arbitrary: i results calls rule: less_induct)
  case less
  let ?n = "length texts"
  let ?f = "\<lambda>t. prefix @ t"
  let ?bs = "Finite (real batchSize)"
  show ?case
  proof (cases "i < ?n")
    case False
    then show ?thesis
      by (subst embedBatch_loop_step) (simp add: progress_ok_def)
  next
    case True
    let ?batch = "take batchSize (drop i texts)"
    have split: "drop i texts = ?batch @ drop (i + batchSize) texts"
    proof -
      have "drop (i + batchSize) texts = drop batchSize (drop i texts)" by (simp add: add.commute)
      then show ?thesis by (simp only: append_take_drop_id)
    qed
    have whole: "embed_texts pipe (map ?f (drop i texts)) results
           = (case embed_texts pipe (map ?f ?batch) results of
                Inl e \<Rightarrow> Inl e
              | Inr r \<Rightarrow> embed_texts pipe (map ?f (drop (i + batchSize) texts)) r)"
      by (subst split) (simp only: map_append embed_texts_append)
    show ?thesis
    proof (cases "embed_texts pipe (map ?f ?batch) results")
      case (Inl e)
      then show ?thesis using True whole
        by (subst embedBatch_loop_step) (simp add: progress_ok_def)
    next
      case (Inr r)
      let ?call = "(Finite (real (min (i + batchSize) ?n)), ?n)"
      let ?calls = "if onProgress then calls @ [?call] else calls"
      have dec: "?n - (i + batchSize) < ?n - i" using True assms by linarith
      from less [OF dec, of r ?calls]
      obtain new where
        run: "embedBatch_loop to_double pipe prefix ?bs onProgress texts (Finite (real (i + batchSize))) r ?calls
                = Some (?calls @ new, embed_texts pipe (map ?f (drop (i + batchSize) texts)) r)"
        and ok: "progress_ok ?n new" and off: "\<not> onProgress \<longrightarrow> new = []"
        and fin: "onProgress \<and> i + batchSize < ?n
                  \<and> (\<exists>rs. embed_texts pipe (map ?f (drop (i + batchSize) texts)) r = Inr rs)
                  \<longrightarrow> new \<noteq> [] \<and> last new = (Finite (real ?n), ?n)"
        by blast
      let ?new = "(if onProgress then [?call] else []) @ new"
      have eq: "embedBatch_loop to_double pipe prefix ?bs onProgress texts (Finite (real i)) results calls
             = Some (calls @ ?new, embed_texts pipe (map ?f (drop i texts)) results)"
        using True Inr run whole by (subst embedBatch_loop_step) simp
      have "number_le (Finite (real (min (i + batchSize) ?n))) (Finite (real ?n))"
        using number_le_whole [of "min (i + batchSize) ?n" ?n] by simp
      then have ok': "progress_ok ?n ?new" using ok by (auto simp: progress_ok_def)
      have off': "\<not> onProgress \<longrightarrow> ?new = []" using off by simp
      have fin': "onProgress \<and> (\<exists>rs. embed_texts pipe (map ?f (drop i texts)) results = Inr rs)
                 \<longrightarrow> ?new \<noteq> [] \<and> last ?new = (Finite (real ?n), ?n)"
      proof (intro impI, elim conjE)
        assume p: onProgress and "\<exists>rs. embed_texts pipe (map ?f (drop i texts)) results = Inr rs"
        then have rest: "\<exists>rs. embed_texts pipe (map ?f (drop (i + batchSize) texts)) r = Inr rs"
          using whole Inr by simp
        show "?new \<noteq> [] \<and> last ?new = (Finite (real ?n), ?n)"
        proof (cases "i + batchSize < ?n")
          case True
          then show ?thesis using fin p rest by simp
        next
          case False
          then have "new = []"
            using run by (subst (asm) embedBatch_loop_step) simp
          then show ?thesis using p False by (simp add: min_def)
        qed
      qed
      show ?thesis using eq ok' off' fin' by blast
    qed
  qed
qed

lemma positive_whole_nat:
  assumes "positive_whole b"
  obtains k where "0 < k" and "b = Finite (real k)"
proof -
  from assms obtain x where x: "b = Finite x" "0 < x" "x = real_of_int \<lfloor>x\<rfloor>"
    by (cases b) (auto simp: positive_whole_def whole_def)
  then have "0 < \<lfloor>x\<rfloor>" by linarith
  then have "0 < nat \<lfloor>x\<rfloor>" "real (nat \<lfloor>x\<rfloor>) = real_of_int \<lfloor>x\<rfloor>" by simp_all
  with x that [of "nat \<lfloor>x\<rfloor>"] show thesis by simp
qed

lemma embedBatch_whole:
  assumes "case batchSize of None \<Rightarrow> True | Some b \<Rightarrow> positive_whole b"
  shows "\<exists>calls. embedBatch to_double init texts batchSize onProgress isQuery
            = Some (calls, case init of
                             Inl e \<Rightarrow> Inl e
                           | Inr pipe \<Rightarrow>
                               embed_texts pipe
                                 (map (\<lambda>t. (if isQuery then QUERY_PREFIX else PASSAGE_PREFIX) @ t) texts) [])
          \<and> progress_ok (length texts) calls
          \<and> (onProgress \<and> texts \<noteq> []
               \<and> (\<exists>pipe rs. init = Inr pipe
                     \<and> embed_texts pipe
                          (map (\<lambda>t. (if isQuery then QUERY_PREFIX else PASSAGE_PREFIX) @ t) texts) [] = Inr rs)
               \<longrightarrow> calls \<noteq> [] \<and> last calls = (Finite (real (length texts)), length texts))"
proof (cases init)
  case (Inl e)
  then show ?thesis by (simp add: embedBatch_def progress_ok_def)
next
  case (Inr pipe)
  let ?prefix = "if isQuery then QUERY_PREFIX else PASSAGE_PREFIX"
  obtain k where k: "0 < k" "(case batchSize of None \<Rightarrow> Finite 32 | Some b \<Rightarrow> b) = Finite (real k)"
  proof (cases batchSize)
    case None
    then show ?thesis using that [of 32] by simp
  next
    case (Some b)
    then have "positive_whole b" using assms by simp
    then show ?thesis using that Some by (auto elim: positive_whole_nat)
  qed
  from embedBatch_loop_returns [OF k(1), of to_double pipe ?prefix onProgress texts 0 "[]" "[]"]
  show ?thesis using Inr k(2) by (auto simp: embedBatch_def)
qed





section \<open>Properties of the archive run\<close>

lemma filter_chunks_closed:
  assumes "ToNumber (to_number env) minLength = Inr limit"
  shows "filter_chunks env db minLength timestamp chunks (result, contentToArchive) =
     Inr (result\<lparr>skipped := skipped result + length (filter (\<lambda>c. \<not> passes_gates limit c) chunks),
                 duplicates := duplicates result
                    + length (filter (\<lambda>c. passes_gates limit c \<and> contentExists env db c) chunks)\<rparr>,
          contentToArchive @ map (\<lambda>c. (c, message_date timestamp))
             (filter (\<lambda>c. passes_gates limit c \<and> \<not> contentExists env db c) chunks))"
proof (induction chunks arbitrary: result contentToArchive)
  case Nil
  show ?case by simp
next
  case (Cons chunk rest)
  show ?case by (simp add: assms Cons.IH passes_gates_def message_date_def)
qed

lemma filter_chunks_throws:
  assumes "ToNumber (to_number env) minLength = Inl e"
  shows "filter_chunks env db minLength timestamp chunks acc = (if chunks = [] then Inr acc else Inl e)"
  by (cases chunks; cases acc) (simp_all add: assms)

lemma collect_content_closed:
  assumes "ToNumber (to_number env) minLength = Inr limit"
  shows "collect_content env db minLength messages (result, contentToArchive) =
     Inr (result\<lparr>skipped := skipped result
                    + length (filter (\<lambda>c. \<not> passes_gates limit c) (chunk_candidates messages)),
                 duplicates := duplicates result
                    + length (filter (\<lambda>c. passes_gates limit c \<and> contentExists env db c)
                                     (chunk_candidates messages))\<rparr>,
          contentToArchive @ new_content env db limit messages)"
proof (induction messages arbitrary: result contentToArchive)
  case Nil
  show ?case by (simp add: chunk_candidates_def new_content_def)
next
  case (Cons message rest)
  show ?case
  proof (cases "is_assistant message")
    case True
    then have "msg_role message = Str ''assistant''" by (simp add: is_assistant_def)
    then show ?thesis using True
      by (simp add: filter_chunks_closed [OF assms] Cons.IH chunk_candidates_def new_content_def)
  next
    case False
    then have "msg_role message \<noteq> Str ''assistant''" by (simp add: is_assistant_def)
    then show ?thesis using False
      by (simp add: Cons.IH chunk_candidates_def new_content_def)
  qed
qed

lemma collect_content_throws:
  assumes "ToNumber (to_number env) minLength = Inl e"
  shows "collect_content env db minLength messages acc
           = (if chunk_candidates messages = [] then Inr acc else Inl e)"
proof (induction messages arbitrary: acc)
  case Nil
  show ?case by (simp add: chunk_candidates_def)
next
  case (Cons message rest)
  show ?case
  proof (cases "is_assistant message")
    case True
    then have "msg_role message = Str ''assistant''" by (simp add: is_assistant_def)
    then show ?thesis using True
      by (simp add: filter_chunks_throws [OF assms] Cons.IH chunk_candidates_def)
  next
    case False
    then have "msg_role message \<noteq> Str ''assistant''" by (simp add: is_assistant_def)
    then show ?thesis using False
      by (simp add: Cons.IH chunk_candidates_def)
  qed
qed

lemma length_new_content:
  "length (new_content env db limit messages)
     = length (filter (\<lambda>c. passes_gates limit c \<and> \<not> contentExists env db c) (chunk_candidates messages))"
  by (induction messages) (auto simp: new_content_def chunk_candidates_def)

lemma map_fst_new_content:
  "map fst (new_content env db limit messages)
     = filter (\<lambda>c. passes_gates limit c \<and> \<not> contentExists env db c) (chunk_candidates messages)"
  by (induction messages) (auto simp: new_content_def chunk_candidates_def comp_def)

lemma new_content_no_candidates:
  "chunk_candidates messages = [] \<Longrightarrow> new_content env db limit messages = []"
  using length_new_content [of env db limit messages] by simp

text \<open>
  What the loop over the messages returns when it returns: the counts and the content of its
  closed form, for the number that the minimum length converts to (for any number when there is
  no chunk candidate, and so no conversion).
\<close>

lemma collect_content_Inr:
  assumes "collect_content env db minLength messages (result, contentToArchive) = Inr out"
  obtains limit where
    "ToNumber (to_number env) minLength = Inr limit \<or> chunk_candidates messages = []"
    and "out = (result\<lparr>skipped := skipped result
                    + length (filter (\<lambda>c. \<not> passes_gates limit c) (chunk_candidates messages)),
                 duplicates := duplicates result
                    + length (filter (\<lambda>c. passes_gates limit c \<and> contentExists env db c)
                                     (chunk_candidates messages))\<rparr>,
          contentToArchive @ new_content env db limit messages)"
proof (cases "ToNumber (to_number env) minLength")
  case (Inr limit)
  then show ?thesis using assms that [of limit] by (simp add: collect_content_closed)
next
  case (Inl e)
  then have none: "chunk_candidates messages = []" and out: "out = (result, contentToArchive)"
    using assms by (auto simp: collect_content_throws split: if_splits)
  show ?thesis
    using that [of NaN] none out by (simp add: new_content_no_candidates)
qed

lemma store_content_counts:
  "store_content env projectId sessionId embeddings contentToArchive i (db, result) = (db', result')
   \<Longrightarrow> skipped result' = skipped result
       \<and> archived result' + duplicates result' = archived result + duplicates result + length contentToArchive"
proof (induction contentToArchive arbitrary: i db result)
  case Nil
  then show ?case by simp
next
  case (Cons item rest)
  obtain content timestamp where item: "item = (content, timestamp)" by (cases item)
  let ?m = "\<lparr>mem_content = content, mem_contentHash = [],
              mem_embedding = (if i < length embeddings then Some (embeddings ! i) else None),
              mem_projectId = projectId, mem_sourceSession = sessionId,
              mem_timestamp = timestamp\<rparr>"
  obtain db1 ident isDuplicate where ins: "insertMemory env db ?m = (db1, ident, isDuplicate)"
    by (cases "insertMemory env db ?m") auto
  let ?r = "if isDuplicate then result\<lparr>duplicates := duplicates result + 1\<rparr>
            else result\<lparr>archived := archived result + 1\<rparr>"
  have "store_content env projectId sessionId embeddings rest (i + 1) (db1, ?r) = (db', result')"
    using Cons.prems item ins by simp
  from Cons.IH [OF this] show ?case by (cases isDuplicate) auto
qed

lemma embedBatch_default:
  "\<exists>calls. embedBatch to_double init texts None onProgress False
     = Some (calls, case init of Inl e \<Rightarrow> Inl e
                    | Inr pipe \<Rightarrow> embed_texts pipe (map (\<lambda>t. PASSAGE_PREFIX @ t) texts) [])"
  using embedBatch_whole [of None to_double init texts onProgress False] by auto

lemma archiveSession_closed:
  "archiveSession env db transcriptPath projectId onProgress =
     (case effective_minLength env of
        Inl e \<Rightarrow> Some (Inl e, db)
      | Inr minLength \<Rightarrow>
          (case parseTranscript (JSON_parse env) (read_file env) transcriptPath of
             Inl e \<Rightarrow> Some (Inl e, db)
           | Inr messages \<Rightarrow> archive_messages env db minLength transcriptPath projectId onProgress messages))"
  by (simp add: archiveSession_def effective_minLength_def and_then_def Let_def split: sum.split)

lemma archive_messages_closed:
  assumes "collect_content env db minLength messages (zero_result, []) = Inr collected"
  shows "archive_messages env db minLength transcriptPath projectId onProgress messages =
     (if messages = [] then Some (Inr zero_result, db)
      else if snd collected = [] then Some (Inr (fst collected), db)
      else case embed_outcome env (map fst (snd collected)) of
             Inl e \<Rightarrow> Some (Inl e, db)
           | Inr embeddings \<Rightarrow>
               (case store_content env projectId (getSessionId transcriptPath) embeddings
                       (snd collected) 0 (db, fst collected) of
                  (db', result) \<Rightarrow> Some (Inr result, db')))"
proof -
  obtain r cta where c: "collected = (r, cta)" by (cases collected)
  obtain calls where e: "embedBatch (round_double env) (initEmbedder env) (map fst cta) None onProgress False
       = Some (calls, embed_outcome env (map fst cta))"
    using embedBatch_default [of "round_double env" "initEmbedder env" "map fst cta" onProgress]
    by (auto simp: embed_outcome_def)
  show ?thesis
    using assms c e
    by (auto simp: archive_messages_def Let_def zero_result_def split: sum.split prod.split)
qed

lemma archive_messages_thrown:
  assumes "collect_content env db minLength messages (zero_result, []) = Inl e"
  shows "archive_messages env db minLength transcriptPath projectId onProgress messages = Some (Inl e, db)"
proof -
  have "messages \<noteq> []" using assms by auto
  then show ?thesis using assms by (simp add: archive_messages_def zero_result_def)
qed

subsection \<open>The sample run, evaluated\<close>

lemma demo_messages: "parseTranscript demo_parse demo_disk demo_path = Inr [demo_assistant, demo_user]"
  by (simp add: parseTranscript_def demo_disk_def demo_path_def parse_line_def js_trim_def is_ws_def
        demo_parse_def line_message_def and_then_def extractTextContent_def demo_assistant_def demo_user_def)

lemma demo_chunks: "extractChunks (msg_content demo_assistant) = [demo_chunk, dull_chunk]"
  unfolding demo_assistant_def demo_chunk_def dull_chunk_def by code_simp

lemma demo_chunk_passes: "passes_gates (Finite 50) demo_chunk"
proof -
  have "\<not> shouldExclude demo_chunk \<and> isValuable demo_chunk"
    unfolding demo_chunk_def by code_simp
  moreover have "length demo_chunk = 52" by (simp add: demo_chunk_def)
  ultimately show ?thesis by (simp add: passes_gates_def)
qed

lemma dull_chunk_fails: "\<not> passes_gates (Finite 50) dull_chunk"
proof -
  have "shouldExclude dull_chunk \<or> \<not> isValuable dull_chunk"
    unfolding dull_chunk_def by code_simp
  then show ?thesis by (auto simp: passes_gates_def)
qed

lemma demo_candidates: "chunk_candidates [demo_assistant, demo_user] = [demo_chunk, dull_chunk]"
  by (simp add: chunk_candidates_def is_assistant_def demo_chunks)
     (simp add: demo_assistant_def demo_user_def)

lemma demo_session: "getSessionId demo_path = ''session''"
  unfolding demo_path_def by code_simp

lemma demo_embedding: "length PASSAGE_PREFIX + length demo_chunk = 61"
  by (simp add: PASSAGE_PREFIX_def demo_chunk_def)

lemma empty_store_has_nothing: "\<not> store_contentExists hash empty_store c"
  by (simp add: store_contentExists_def empty_store_def)

lemma default_minLength:
  "archive_minContentLength DEFAULT_CONFIG = Inr (Num (Finite 50))"
  by (simp add: archive_minContentLength_def and_then_def DEFAULT_CONFIG_def DEFAULT_ARCHIVE_CONFIG_def)

lemma demo_env_fields:
  "JSON_parse demo_env = demo_parse" "read_file demo_env = demo_disk"
  "effective_minLength demo_env = Inr (Num (Finite 50))"
  "ToNumber (to_number demo_env) (Num (Finite 50)) = Inr (Finite 50)"
  "contentExists demo_env = store_contentExists (\<lambda>c. c)"
  "insertMemory demo_env = store_insert (\<lambda>c. c)" "initEmbedder demo_env = Inr (\<lambda>t. Inr (length t))"
  by (simp_all add: demo_env_def effective_minLength_def loadConfig_def default_minLength and_then_def)

lemma demo_collected:
  "collect_content demo_env empty_store (Num (Finite 50)) [demo_assistant, demo_user] (zero_result, [])
     = Inr (\<lparr>archived = 0, skipped = 1, duplicates = 0\<rparr>,
            [(demo_chunk, DateOf (Str ''2024-06-15T10:00:30.000Z''))])"
proof -
  have "new_content demo_env empty_store (Finite 50) [demo_assistant, demo_user]
               = [(demo_chunk, DateOf (Str ''2024-06-15T10:00:30.000Z''))]"
    by (simp add: new_content_def is_assistant_def demo_chunks demo_chunk_passes dull_chunk_fails
          demo_env_fields empty_store_has_nothing message_date_def)
       (simp add: demo_assistant_def demo_user_def)
  then show ?thesis
    by (simp add: collect_content_closed [OF demo_env_fields(4)] demo_candidates demo_chunk_passes
          dull_chunk_fails zero_result_def demo_env_fields empty_store_has_nothing
          del: collect_content.simps)
qed

lemma demo_first_run:
  "archiveSession demo_env empty_store demo_path None True
     = Some (Inr \<lparr>archived = 1, skipped = 1, duplicates = 0\<rparr>, demo_store)"
proof -
  have embed: "embed_outcome demo_env [demo_chunk] = Inr [61]"
    by (simp add: embed_outcome_def demo_env_fields demo_embedding)
  have store: "store_content demo_env None ''session'' [61]
                 [(demo_chunk, DateOf (Str ''2024-06-15T10:00:30.000Z''))] 0 (empty_store, r)
               = (demo_store, r\<lparr>archived := archived r + 1\<rparr>)" for r
    by (simp add: demo_env_fields store_insert_def empty_store_def demo_store_def demo_fragment_def)
  show ?thesis
    by (simp add: archiveSession_closed demo_env_fields demo_messages
          archive_messages_closed [OF demo_collected] embed store demo_session
          del: store_content.simps collect_content.simps)
qed

subsection \<open>Counts, failures and the missing transcript\<close>

lemma filter_three_way:
  "length (filter (\<lambda>c. \<not> P c) xs) + length (filter (\<lambda>c. P c \<and> Q c) xs)
     + length (filter (\<lambda>c. P c \<and> \<not> Q c) xs) = length xs"
  by (induction xs) auto

lemma collected_counts:
  assumes "collect_content env db minLength messages (zero_result, []) = Inr (result, contentToArchive)"
  shows "archived result = 0"
    and "skipped result + duplicates result + length contentToArchive = length (chunk_candidates messages)"
proof -
  let ?cs = "chunk_candidates messages"
  let ?Q = "contentExists env db"
  from assms obtain limit where
    r: "result = zero_result\<lparr>skipped := skipped zero_result + length (filter (\<lambda>c. \<not> passes_gates limit c) ?cs),
        duplicates := duplicates zero_result + length (filter (\<lambda>c. passes_gates limit c \<and> ?Q c) ?cs)\<rparr>"
    and c: "contentToArchive = new_content env db limit messages"
    by (auto elim: collect_content_Inr)
  show "archived result = 0" using r by (simp add: zero_result_def)
  show "skipped result + duplicates result + length contentToArchive = length ?cs"
    using r c filter_three_way [of "passes_gates limit" ?cs ?Q] by (simp add: zero_result_def length_new_content)
qed

lemma archive_messages_returns:
  "\<exists>outcome db'. archive_messages env db minLength transcriptPath projectId onProgress messages = Some (outcome, db')"
proof (cases "collect_content env db minLength messages (zero_result, [])")
  case (Inl e)
  then show ?thesis by (simp add: archive_messages_thrown)
next
  case (Inr collected)
  then show ?thesis by (auto simp: archive_messages_closed split: sum.split prod.split)
qed

lemma archive_messages_counts:
  assumes "archive_messages env db minLength transcriptPath projectId onProgress messages = Some (Inr result, db')"
  shows "archived result + skipped result + duplicates result = length (chunk_candidates messages)"
proof (cases "collect_content env db minLength messages (zero_result, [])")
  case (Inl e)
  then show ?thesis using assms by (simp add: archive_messages_thrown)
next
  case (Inr collected)
  obtain r cta where c: "collected = (r, cta)" by (cases collected)
  note cc = collected_counts [OF Inr [unfolded c]]
  note closed = archive_messages_closed [OF Inr]
  show ?thesis
  proof (cases "messages = []")
    case True
    then show ?thesis using assms closed
      by (auto simp: zero_result_def chunk_candidates_def)
  next
    case ne: False
    show ?thesis
    proof (cases "cta = []")
      case True
      then have "result = r" using assms ne c by (simp add: closed)
      then show ?thesis using cc True by simp
    next
      case False
      then obtain embeddings where
        st: "store_content env projectId (getSessionId transcriptPath) embeddings cta 0 (db, r) = (db', result)"
        using assms ne c by (auto simp: closed split: sum.splits prod.splits)
      from store_content_counts [OF st] cc show ?thesis by simp
    qed
  qed
qed

text \<open>
  C2. Every run of \<open>archiveSession\<close> returns (with a result or with the error thrown), and
  in a returned \<open>ArchiveResult\<close> the three counters add up to the number of chunk candidates
  of the run, the chunks of the assistant messages of the transcript: each of them is counted
  once, as archived, skipped or duplicate.
\<close>

theorem archiveSession_count_invariant:
  "(\<exists>outcome db'. archiveSession env db transcriptPath projectId onProgress = Some (outcome, db'))
   \<and> (\<forall>result db' messages.
         archiveSession env db transcriptPath projectId onProgress = Some (Inr result, db')
         \<and> parseTranscript (JSON_parse env) (read_file env) transcriptPath = Inr messages
         \<longrightarrow> archived result + skipped result + duplicates result = length (chunk_candidates messages))"
proof (cases "effective_minLength env")
  case (Inl e)
  then show ?thesis by (simp add: archiveSession_closed)
next
  case configured: (Inr minLength)
  show ?thesis
  proof (cases "parseTranscript (JSON_parse env) (read_file env) transcriptPath")
    case (Inl e)
    then show ?thesis using configured by (simp add: archiveSession_closed)
  next
    case (Inr messages)
    then show ?thesis
      using configured
        archive_messages_returns [of env db minLength transcriptPath projectId onProgress messages]
        archive_messages_counts [of env db minLength transcriptPath projectId onProgress messages]
      by (auto simp: archiveSession_closed)
  qed
qed

text \<open>The sample run of C2: two chunk candidates, one archived and one skipped.\<close>

theorem archiveSession_count_invariant_witness:
  "archiveSession demo_env empty_store demo_path None True
     = Some (Inr \<lparr>archived = 1, skipped = 1, duplicates = 0\<rparr>, demo_store)
   \<and> parseTranscript (JSON_parse demo_env) (read_file demo_env) demo_path = Inr [demo_assistant, demo_user]
   \<and> length (chunk_candidates [demo_assistant, demo_user]) = 2"
  using archiveSession_count_invariant [of demo_env empty_store demo_path None True]
  by (simp add: demo_first_run demo_env_fields demo_messages demo_candidates)

lemma embedding_failure_aborts:
  assumes "effective_minLength env = Inr minLength"
    and "parseTranscript (JSON_parse env) (read_file env) transcriptPath = Inr messages"
    and "collect_content env db minLength messages (zero_result, []) = Inr (result, contentToArchive)"
    and "contentToArchive \<noteq> []"
    and "initEmbedder env = Inl e
         \<or> (\<exists>pipe. initEmbedder env = Inr pipe
               \<and> embed_texts pipe (map (\<lambda>t. PASSAGE_PREFIX @ t) (map fst contentToArchive)) [] = Inl e)"
  shows "archiveSession env db transcriptPath projectId onProgress = Some (Inl e, db)"
proof -
  have "embed_outcome env (map fst contentToArchive) = Inl e"
    using assms(5) by (auto simp: embed_outcome_def)
  moreover have "messages \<noteq> []" using assms(3,4) by auto
  ultimately show ?thesis
    using assms(1,2,4) by (simp add: archiveSession_closed archive_messages_closed [OF assms(3)])
qed

text \<open>
  C5 (as amended). When the run reaches the embedding stage (the minimum length is read from
  the configuration, the transcript is parsed and the loop over the messages leaves content to
  archive) and the embedding stage fails (the model cannot be loaded, or the embedder fails on
  one of the texts), \<open>archiveSession\<close> throws that error: it returns no \<open>ArchiveResult\<close>,
  so the counts accumulated so far are not returned, and the store is as it was before the run.
\<close>

theorem archiveSession_embedding_failure:
  assumes "effective_minLength env = Inr minLength"
    and "parseTranscript (JSON_parse env) (read_file env) transcriptPath = Inr messages"
    and "collect_content env db minLength messages (zero_result, []) = Inr (result, contentToArchive)"
    and "contentToArchive \<noteq> []"
    and "initEmbedder env = Inl e
         \<or> (\<exists>pipe. initEmbedder env = Inr pipe
               \<and> embed_texts pipe (map (\<lambda>t. PASSAGE_PREFIX @ t) (map fst contentToArchive)) [] = Inl e)"
  shows "archiveSession env db transcriptPath projectId onProgress = Some (Inl e, db)"
  using assms by (rule embedding_failure_aborts)

lemma failing_env_fields:
  "JSON_parse failing_env = demo_parse" "read_file failing_env = demo_disk"
  "effective_minLength failing_env = Inr (Num (Finite 50))"
  "ToNumber (to_number failing_env) (Num (Finite 50)) = Inr (Finite 50)"
  "contentExists failing_env = store_contentExists (\<lambda>c. c)"
  "initEmbedder failing_env = Inl ProviderUnavailable"
  by (simp_all add: failing_env_def demo_env_def effective_minLength_def loadConfig_def
        default_minLength and_then_def)

lemma failing_collected:
  "collect_content failing_env empty_store (Num (Finite 50)) [demo_assistant, demo_user] (zero_result, [])
     = Inr (\<lparr>archived = 0, skipped = 1, duplicates = 0\<rparr>,
            [(demo_chunk, DateOf (Str ''2024-06-15T10:00:30.000Z''))])"
proof -
  have "new_content failing_env empty_store (Finite 50) [demo_assistant, demo_user]
               = [(demo_chunk, DateOf (Str ''2024-06-15T10:00:30.000Z''))]"
    by (simp add: new_content_def is_assistant_def demo_chunks demo_chunk_passes dull_chunk_fails
          failing_env_fields empty_store_has_nothing message_date_def)
       (simp add: demo_assistant_def demo_user_def)
  then show ?thesis
    by (simp add: collect_content_closed [OF failing_env_fields(4)] demo_candidates demo_chunk_passes
          dull_chunk_fails zero_result_def failing_env_fields empty_store_has_nothing
          del: collect_content.simps)
qed

text \<open>The sample run of C5 with a model that cannot be loaded.\<close>

theorem archiveSession_embedding_failure_witness:
  "archiveSession failing_env empty_store demo_path None True = Some (Inl ProviderUnavailable, empty_store)"
  by (rule archiveSession_embedding_failure [of failing_env "Num (Finite 50)" demo_path
          "[demo_assistant, demo_user]" empty_store
          "\<lparr>archived = 0, skipped = 1, duplicates = 0\<rparr>"
          "[(demo_chunk, DateOf (Str ''2024-06-15T10:00:30.000Z''))]"])
     (simp_all add: failing_env_fields demo_messages failing_collected del: collect_content.simps)

text \<open>
  C5 as stated fails: in the sample run with a model that cannot be loaded, one chunk has been
  counted as skipped when the embedding stage fails, and the run returns the error and not
  these counts.
\<close>

theorem archiveSession_partial_counts_counterexample:
  "collect_content failing_env empty_store (Num (Finite 50)) [demo_assistant, demo_user] (zero_result, [])
     = Inr (\<lparr>archived = 0, skipped = 1, duplicates = 0\<rparr>,
            [(demo_chunk, DateOf (Str ''2024-06-15T10:00:30.000Z''))])
   \<and> archiveSession failing_env empty_store demo_path None True \<noteq> Some (Inr \<lparr>archived = 0, skipped = 1, duplicates = 0\<rparr>, empty_store)
   \<and> archiveSession failing_env empty_store demo_path None True = Some (Inl ProviderUnavailable, empty_store)"
proof -
  have "archiveSession failing_env empty_store demo_path None True = Some (Inl ProviderUnavailable, empty_store)"
    by (rule embedding_failure_aborts [of failing_env "Num (Finite 50)" demo_path
          "[demo_assistant, demo_user]" empty_store
          "\<lparr>archived = 0, skipped = 1, duplicates = 0\<rparr>"
          "[(demo_chunk, DateOf (Str ''2024-06-15T10:00:30.000Z''))]"])
       (simp_all add: failing_env_fields demo_messages failing_collected del: collect_content.simps)
  then show ?thesis by (simp add: failing_collected del: collect_content.simps)
qed

text \<open>
  C6 (as amended). For a path at which no file exists, when the read of
  \<open>config.archive.minContentLength\<close> from the loaded configuration does not throw,
  \<open>archiveSession\<close> returns the counts \<open>archived = 0\<close>, \<open>skipped = 0\<close>,
  \<open>duplicates = 0\<close>, raises no error and leaves the store unchanged. The read does not throw
  when there is no configuration file, or none that can be read and parsed.
\<close>

theorem archiveSession_missing_transcript:
  "(read_file env transcriptPath = Missing
      \<and> archive_minContentLength (loadConfig (JSON_parse env) (config_json env)) = Inr configured
    \<longrightarrow> archiveSession env db transcriptPath projectId onProgress
          = Some (Inr \<lparr>archived = 0, skipped = 0, duplicates = 0\<rparr>, db))
   \<and> (read_file env transcriptPath = Missing
      \<and> (config_json env = NoConfig \<or> config_json env = UnreadableConfig
          \<or> (\<exists>content. config_json env = ConfigText content \<and> JSON_parse env content = None))
    \<longrightarrow> archiveSession env db transcriptPath projectId onProgress
          = Some (Inr \<lparr>archived = 0, skipped = 0, duplicates = 0\<rparr>, db))"
proof -
  have zero: "archiveSession env db transcriptPath projectId onProgress
          = Some (Inr \<lparr>archived = 0, skipped = 0, duplicates = 0\<rparr>, db)"
    if "read_file env transcriptPath = Missing"
      and "archive_minContentLength (loadConfig (JSON_parse env) (config_json env)) = Inr v" for v
    using that by (simp add: archiveSession_def parseTranscript_def archive_messages_def Let_def)
  have defaults: "loadConfig (JSON_parse env) (config_json env) = DEFAULT_CONFIG"
    if "config_json env = NoConfig \<or> config_json env = UnreadableConfig
          \<or> (\<exists>content. config_json env = ConfigText content \<and> JSON_parse env content = None)"
    using that by (auto simp: loadConfig_def)
  show ?thesis
    using zero [of configured] zero [of "Num (Finite 50)"] defaults default_minLength by auto
qed

text \<open>A run of C6 on a path that does not exist, without a configuration file.\<close>

theorem archiveSession_missing_transcript_witness:
  "read_file demo_env ''/nowhere'' = Missing
   \<and> config_json demo_env = NoConfig
   \<and> archive_minContentLength (loadConfig (JSON_parse demo_env) (config_json demo_env)) = Inr (Num (Finite 50))
   \<and> archiveSession demo_env empty_store ''/nowhere'' None True
        = Some (Inr \<lparr>archived = 0, skipped = 0, duplicates = 0\<rparr>, empty_store)"
proof -
  have 1: "read_file demo_env ''/nowhere'' = Missing"
    by (simp add: demo_env_fields demo_disk_def demo_path_def)
  have 2: "config_json demo_env = NoConfig" by (simp add: demo_env_def)
  have 3: "archive_minContentLength (loadConfig (JSON_parse demo_env) (config_json demo_env)) = Inr (Num (Finite 50))"
    by (simp add: 2 loadConfig_def default_minLength)
  from archiveSession_missing_transcript
         [of demo_env "''/nowhere''" "Num (Finite 50)" empty_store None True] 1 3
  have "archiveSession demo_env empty_store ''/nowhere'' None True
        = Some (Inr \<lparr>archived = 0, skipped = 0, duplicates = 0\<rparr>, empty_store)"
    by blast
  with 1 2 3 show ?thesis by blast
qed

lemma null_archive_throws: "effective_minLength null_archive_env = Inl TypeError"
  by (simp add: effective_minLength_def null_archive_env_def demo_env_def loadConfig_def deepMerge_def
        DEFAULT_CONFIG_def set_property_def archive_minContentLength_def and_then_def)

text \<open>
  C6 as stated fails: the path \<open>/tmp\<close> exists and does not name a readable transcript file,
  and the run on it ends with the read error, not with zero counts. And on a path at which no
  file exists, the run ends with a TypeError when the configuration file gives \<open>null\<close> as the
  section \<open>archive\<close>.
\<close>

theorem archiveSession_unreadable_transcript_counterexample:
  "read_file demo_env ''/tmp'' = Unreadable
   \<and> archiveSession demo_env empty_store ''/tmp'' None True = Some (Inl ReadError, empty_store)
   \<and> read_file null_archive_env ''/nowhere'' = Missing
   \<and> loadConfig (JSON_parse null_archive_env) (config_json null_archive_env)
        = Obj [(''statusline'', DEFAULT_STATUSLINE_CONFIG), (''archive'', Null),
               (''monitor'', DEFAULT_MONITOR_CONFIG)]
   \<and> archiveSession null_archive_env empty_store ''/nowhere'' None True = Some (Inl TypeError, empty_store)"
proof -
  have 1: "read_file demo_env ''/tmp'' = Unreadable"
    by (simp add: demo_env_fields demo_disk_def demo_path_def)
  then have 2: "archiveSession demo_env empty_store ''/tmp'' None True = Some (Inl ReadError, empty_store)"
    by (simp add: archiveSession_closed parseTranscript_def demo_env_fields)
  have 3: "read_file null_archive_env ''/nowhere'' = Missing"
    by (simp add: null_archive_env_def demo_env_def demo_disk_def demo_path_def)
  have 4: "loadConfig (JSON_parse null_archive_env) (config_json null_archive_env)
        = Obj [(''statusline'', DEFAULT_STATUSLINE_CONFIG), (''archive'', Null),
               (''monitor'', DEFAULT_MONITOR_CONFIG)]"
    by (simp add: null_archive_env_def demo_env_def loadConfig_def deepMerge_def
        DEFAULT_CONFIG_def set_property_def)
  have 5: "archiveSession null_archive_env empty_store ''/nowhere'' None True = Some (Inl TypeError, empty_store)"
    by (simp add: archiveSession_closed null_archive_throws)
  show ?thesis by (intro conjI 1 2 3 4 5)
qed

subsection \<open>Assistant messages as the only source\<close>

lemma chunk_candidates_assistant:
  "chunk_candidates (filter is_assistant messages) = chunk_candidates messages"
  by (simp add: chunk_candidates_def)

lemma collect_content_assistant:
  "collect_content env db minLength (filter is_assistant messages) acc
     = collect_content env db minLength messages acc"
proof (induction messages arbitrary: acc)
  case Nil
  show ?case by simp
next
  case (Cons message rest)
  show ?case
  proof (cases "is_assistant message")
    case True
    then have "msg_role message = Str ''assistant''" by (simp add: is_assistant_def)
    then show ?thesis using True by (simp add: Cons.IH split: sum.split)
  next
    case False
    then have "msg_role message \<noteq> Str ''assistant''" by (simp add: is_assistant_def)
    then show ?thesis using False by (simp add: Cons.IH)
  qed
qed

lemma collect_content_nothing:
  assumes "filter is_assistant messages = []"
  shows "collect_content env db minLength messages (zero_result, []) = Inr (zero_result, [])"
proof -
  have "collect_content env db minLength (filter is_assistant messages) (zero_result, [])
          = Inr (zero_result, [])"
    by (simp add: assms)
  then show ?thesis by (simp only: collect_content_assistant)
qed

lemma archive_messages_assistant:
  "archive_messages env db minLength transcriptPath projectId onProgress (filter is_assistant messages)
     = archive_messages env db minLength transcriptPath projectId onProgress messages"
proof (cases "filter is_assistant messages = []")
  case True
  then have "archive_messages env db minLength transcriptPath projectId onProgress (filter is_assistant messages)
               = Some (Inr zero_result, db)"
    by (simp add: archive_messages_def zero_result_def)
  moreover have "archive_messages env db minLength transcriptPath projectId onProgress messages
               = Some (Inr zero_result, db)"
    by (simp add: archive_messages_closed [OF collect_content_nothing [OF True]])
  ultimately show ?thesis by simp
next
  case False
  then have "messages \<noteq> []" by auto
  then show ?thesis using False
    by (simp add: archive_messages_def collect_content_assistant del: collect_content.simps)
qed

lemma new_content_origin:
  "item \<in> set (new_content env db limit messages)
   \<Longrightarrow> \<exists>message \<in> set messages.
         msg_role message = Str ''assistant'' \<and> fst item \<in> set (extractChunks (msg_content message))"
  by (auto simp: new_content_def is_assistant_def)

lemma collected_origin:
  assumes "collect_content env db minLength messages (zero_result, []) = Inr (result, contentToArchive)"
    and "item \<in> set contentToArchive"
  shows "\<exists>message \<in> set messages.
         msg_role message = Str ''assistant'' \<and> fst item \<in> set (extractChunks (msg_content message))"
proof -
  from assms(1) obtain limit where "contentToArchive = new_content env db limit messages"
    by (auto elim: collect_content_Inr)
  then have "item \<in> set (new_content env db limit messages)" using assms(2) by simp
  then show ?thesis by (rule new_content_origin)
qed

lemma store_content_view:
  assumes "\<And>d m. view (fst (insertMemory env d m)) \<subseteq> insert (mem_content m) (view d)"
    and "store_content env projectId sessionId embeddings contentToArchive i (db, result) = (db', result')"
  shows "view db' \<subseteq> view db \<union> fst ` set contentToArchive"
  using assms(2)
proof (induction contentToArchive arbitrary: i db result)
  case Nil
  then show ?case by simp
next
  case (Cons item rest)
  obtain content timestamp where item: "item = (content, timestamp)" by (cases item)
  let ?m = "\<lparr>mem_content = content, mem_contentHash = [],
              mem_embedding = (if i < length embeddings then Some (embeddings ! i) else None),
              mem_projectId = projectId, mem_sourceSession = sessionId,
              mem_timestamp = timestamp\<rparr>"
  obtain db1 ident isDuplicate where ins: "insertMemory env db ?m = (db1, ident, isDuplicate)"
    by (cases "insertMemory env db ?m") auto
  let ?r = "if isDuplicate then result\<lparr>duplicates := duplicates result + 1\<rparr>
            else result\<lparr>archived := archived result + 1\<rparr>"
  have "store_content env projectId sessionId embeddings rest (i + 1) (db1, ?r) = (db', result')"
    using Cons.prems item ins by simp
  from Cons.IH [OF this] have "view db' \<subseteq> view db1 \<union> fst ` set rest" .
  moreover have "view db1 \<subseteq> insert content (view db)"
    using assms(1) [of db ?m] ins by simp
  ultimately show ?case using item by auto
qed

lemma archive_messages_view:
  assumes "\<And>d m. view (fst (insertMemory env d m)) \<subseteq> insert (mem_content m) (view d)"
    and "archive_messages env db minLength transcriptPath projectId onProgress messages = Some (outcome, db')"
    and "content \<in> view db'"
  shows "content \<in> view db
         \<or> (\<exists>message \<in> set messages.
               msg_role message = Str ''assistant''
               \<and> content \<in> set (extractChunks (msg_content message)))"
proof (cases "collect_content env db minLength messages (zero_result, [])")
  case (Inl e)
  then have "db' = db" using assms(2) by (simp add: archive_messages_thrown)
  then show ?thesis using assms(3) by simp
next
  case (Inr collected)
  obtain r cta where c: "collected = (r, cta)" by (cases collected)
  note closed = archive_messages_closed [OF Inr, of transcriptPath projectId onProgress]
  show ?thesis
  proof (cases "messages = [] \<or> cta = [] \<or> (\<exists>e. embed_outcome env (map fst cta) = Inl e)")
    case True
    then have "db' = db" using assms(2) c closed
      by (auto split: if_splits)
    then show ?thesis using assms(3) by simp
  next
    case False
    then obtain embeddings result where
      "store_content env projectId (getSessionId transcriptPath) embeddings cta 0 (db, r) = (db', result)"
      using assms(2) c closed by (auto split: sum.splits prod.splits)
    then have "view db' \<subseteq> view db \<union> fst ` set cta"
      using assms(1) by (rule store_content_view [rotated])
    with assms(3) consider (old) "content \<in> view db"
      | (new) item where "item \<in> set cta" "content = fst item"
      by auto
    then show ?thesis
    proof cases
      case old
      then show ?thesis by simp
    next
      case new
      from collected_origin [OF Inr [unfolded c] new(1)] new(2) show ?thesis by simp
    qed
  qed
qed

text \<open>
  C8. Only assistant messages are sources. The run on a list of messages is the run on its
  assistant messages alone, with the same counters and the same store: a message with another
  role, such as \<open>user\<close> or \<open>system\<close>, produces no chunk and moves no counter. Every item
  that the run hands on to the embedder and to \<open>insertMemory\<close> is a chunk of an assistant
  message. And for any view of the store's contents to which an insert adds at most the content
  it is given, every content in the store after the run was there before or is a chunk of an
  assistant message.
\<close>

theorem archiveSession_assistant_only:
  "archive_messages env db minLength transcriptPath projectId onProgress messages
     = archive_messages env db minLength transcriptPath projectId onProgress (filter is_assistant messages)
   \<and> (collect_content env db minLength messages (zero_result, []) = Inr (result, contentToArchive)
        \<longrightarrow> (\<forall>item \<in> set contentToArchive.
               \<exists>message \<in> set messages.
                 msg_role message = Str ''assistant''
                 \<and> fst item \<in> set (extractChunks (msg_content message))))
   \<and> ((\<forall>d m. view (fst (insertMemory env d m)) \<subseteq> insert (mem_content m) (view d))
        \<and> archive_messages env db minLength transcriptPath projectId onProgress messages = Some (outcome, db')
        \<longrightarrow> (\<forall>content \<in> view db'.
               content \<in> view db
               \<or> (\<exists>message \<in> set messages.
                     msg_role message = Str ''assistant''
                     \<and> content \<in> set (extractChunks (msg_content message)))))"
proof (intro conjI ballI impI)
  show "archive_messages env db minLength transcriptPath projectId onProgress messages
     = archive_messages env db minLength transcriptPath projectId onProgress (filter is_assistant messages)"
    by (simp add: archive_messages_assistant)
next
  fix item
  assume "collect_content env db minLength messages (zero_result, []) = Inr (result, contentToArchive)"
    and "item \<in> set contentToArchive"
  then show "\<exists>message \<in> set messages.
           msg_role message = Str ''assistant'' \<and> fst item \<in> set (extractChunks (msg_content message))"
    by (rule collected_origin)
next
  fix content
  assume h: "(\<forall>d m. view (fst (insertMemory env d m)) \<subseteq> insert (mem_content m) (view d))
        \<and> archive_messages env db minLength transcriptPath projectId onProgress messages = Some (outcome, db')"
    and c: "content \<in> view db'"
  from h have v: "\<And>d m. view (fst (insertMemory env d m)) \<subseteq> insert (mem_content m) (view d)"
    and run: "archive_messages env db minLength transcriptPath projectId onProgress messages = Some (outcome, db')"
    by auto
  from archive_messages_view [of view env, OF v run c]
  show "content \<in> view db
               \<or> (\<exists>message \<in> set messages.
                     msg_role message = Str ''assistant''
                     \<and> content \<in> set (extractChunks (msg_content message)))" .
qed

lemma store_insert_view:
  "stored_contents (fst (store_insert hash d m)) \<subseteq> insert (mem_content m) (stored_contents d)"
  by (auto simp: store_insert_def stored_contents_def split: option.splits)

text \<open>The sample run of C8: the user message changes nothing, the stored chunk is the assistant's.\<close>

theorem archiveSession_assistant_only_witness:
  "archive_messages demo_env empty_store (Num (Finite 50)) demo_path None True [demo_assistant, demo_user]
     = archive_messages demo_env empty_store (Num (Finite 50)) demo_path None True [demo_assistant]
   \<and> collect_content demo_env empty_store (Num (Finite 50)) [demo_assistant, demo_user] (zero_result, [])
       = Inr (\<lparr>archived = 0, skipped = 1, duplicates = 0\<rparr>,
              [(demo_chunk, DateOf (Str ''2024-06-15T10:00:30.000Z''))])
   \<and> msg_role demo_assistant = Str ''assistant''
   \<and> demo_chunk \<in> set (extractChunks (msg_content demo_assistant))
   \<and> archive_messages demo_env empty_store (Num (Finite 50)) demo_path None True [demo_assistant, demo_user]
       = Some (Inr \<lparr>archived = 1, skipped = 1, duplicates = 0\<rparr>, demo_store)
   \<and> stored_contents demo_store = {demo_chunk}"
proof -
  have a: "filter is_assistant [demo_assistant, demo_user] = [demo_assistant]"
    by (simp add: is_assistant_def demo_assistant_def demo_user_def)
  have "archive_messages demo_env empty_store (Num (Finite 50)) demo_path None True [demo_assistant, demo_user]
     = archive_messages demo_env empty_store (Num (Finite 50)) demo_path None True
         (filter is_assistant [demo_assistant, demo_user])"
    using archiveSession_assistant_only [of demo_env empty_store "Num (Finite 50)" demo_path None True
            "[demo_assistant, demo_user]" "\<lparr>archived = 0, skipped = 1, duplicates = 0\<rparr>"
            "[(demo_chunk, DateOf (Str ''2024-06-15T10:00:30.000Z''))]" stored_contents
            "Inr \<lparr>archived = 1, skipped = 1, duplicates = 0\<rparr>" demo_store]
    by (rule conjunct1)
  then have 1: "archive_messages demo_env empty_store (Num (Finite 50)) demo_path None True [demo_assistant, demo_user]
     = archive_messages demo_env empty_store (Num (Finite 50)) demo_path None True [demo_assistant]"
    by (simp only: a)
  note 2 = demo_collected
  have 3: "msg_role demo_assistant = Str ''assistant''" by (simp add: demo_assistant_def)
  have 4: "demo_chunk \<in> set (extractChunks (msg_content demo_assistant))" by (simp add: demo_chunks)
  have 5: "archive_messages demo_env empty_store (Num (Finite 50)) demo_path None True [demo_assistant, demo_user]
       = Some (Inr \<lparr>archived = 1, skipped = 1, duplicates = 0\<rparr>, demo_store)"
    using demo_first_run by (simp add: archiveSession_closed demo_env_fields demo_messages)
  have 6: "stored_contents demo_store = {demo_chunk}"
    by (simp add: stored_contents_def demo_store_def demo_fragment_def)
  show ?thesis by (intro conjI 1 2 3 4 5 6)
qed

subsection \<open>Archiving the same transcript twice\<close>

lemma store_insert_exists:
  assumes "store_insert hash st m = (st', ident, isDuplicate)"
  shows "store_contentExists hash st' c
           \<longleftrightarrow> store_contentExists hash st c \<or> hash c = hash (mem_content m)"
proof (cases "find (\<lambda>f. frag_contentHash f = hash (mem_content m)) (fragments st)")
  case None
  then show ?thesis using assms
    by (auto simp: store_insert_def store_contentExists_def list_ex_iff)
next
  case (Some f)
  then have same: "st' = st" using assms by (simp add: store_insert_def)
  from Some have "f \<in> set (fragments st)" "frag_contentHash f = hash (mem_content m)"
    by (auto simp: find_Some_iff)
  then have "hash c = hash (mem_content m) \<Longrightarrow> store_contentExists hash st c"
    by (auto simp: store_contentExists_def list_ex_iff)
  then show ?thesis using same by auto
qed

lemma store_content_exists:
  assumes "insertMemory env = store_insert hash"
    and "store_content env projectId sessionId embeddings contentToArchive i (db, result) = (db', result')"
  shows "store_contentExists hash db' c
           \<longleftrightarrow> store_contentExists hash db c \<or> hash c \<in> (\<lambda>item. hash (fst item)) ` set contentToArchive"
  using assms(2)
proof (induction contentToArchive arbitrary: i db result)
  case Nil
  then show ?case by simp
next
  case (Cons item rest)
  obtain content timestamp where item: "item = (content, timestamp)" by (cases item)
  let ?m = "\<lparr>mem_content = content, mem_contentHash = [],
              mem_embedding = (if i < length embeddings then Some (embeddings ! i) else None),
              mem_projectId = projectId, mem_sourceSession = sessionId,
              mem_timestamp = timestamp\<rparr>"
  obtain db1 ident isDuplicate where ins: "store_insert hash db ?m = (db1, ident, isDuplicate)"
    by (cases "store_insert hash db ?m") auto
  let ?r = "if isDuplicate then result\<lparr>duplicates := duplicates result + 1\<rparr>
            else result\<lparr>archived := archived result + 1\<rparr>"
  have "store_content env projectId sessionId embeddings rest (i + 1) (db1, ?r) = (db', result')"
    using Cons.prems item ins assms(1) by simp
  from Cons.IH [OF this] store_insert_exists [OF ins, of c] show ?case
    using item by auto
qed

lemma collect_content_limit:
  assumes "ToNumber (to_number env) minLength = Inr limit \<or> chunk_candidates messages = []"
  shows "collect_content env db minLength messages (result, contentToArchive) =
     Inr (result\<lparr>skipped := skipped result
                    + length (filter (\<lambda>c. \<not> passes_gates limit c) (chunk_candidates messages)),
                 duplicates := duplicates result
                    + length (filter (\<lambda>c. passes_gates limit c \<and> contentExists env db c)
                                     (chunk_candidates messages))\<rparr>,
          contentToArchive @ new_content env db limit messages)"
proof (cases "chunk_candidates messages = []")
  case True
  show ?thesis
  proof (cases "ToNumber (to_number env) minLength")
    case (Inl e)
    then show ?thesis using True
      by (simp add: collect_content_throws new_content_no_candidates)
  next
    case (Inr other)
    then show ?thesis using True
      by (simp add: collect_content_closed new_content_no_candidates)
  qed
next
  case False
  then show ?thesis using assms by (simp add: collect_content_closed)
qed

lemma second_run:
  assumes ce: "contentExists env = store_contentExists hash"
    and im: "insertMemory env = store_insert hash"
    and first: "archive_messages env db minLength transcriptPath projectId onProgress messages = Some (Inr first, db1)"
  shows "\<exists>second. archive_messages env db1 minLength transcriptPath projectId' onProgress' messages = Some (Inr second, db1)
           \<and> archived second = 0 \<and> skipped second = skipped first
           \<and> duplicates second = archived first + duplicates first"
proof (cases "collect_content env db minLength messages (zero_result, [])")
  case (Inl e)
  then show ?thesis using first by (simp add: archive_messages_thrown)
next
  case (Inr collected)
  then obtain limit where
    limit: "ToNumber (to_number env) minLength = Inr limit \<or> chunk_candidates messages = []"
    by (auto elim: collect_content_Inr)
  let ?cs = "chunk_candidates messages"
  let ?P = "passes_gates limit"
  let ?cta = "new_content env db limit messages"
  obtain r where c: "collect_content env db minLength messages (zero_result, []) = Inr (r, ?cta)"
    by (simp add: collect_content_limit [OF limit])
  note cc = collected_counts [OF c]
  note closed = archive_messages_closed [OF c]
  have r: "skipped r = length (filter (\<lambda>c. \<not> ?P c) ?cs)"
    "duplicates r = length (filter (\<lambda>c. ?P c \<and> contentExists env db c) ?cs)"
    using c by (auto simp: collect_content_limit [OF limit] zero_result_def)
  show ?thesis
  proof (cases "messages = []")
    case True
    then show ?thesis using first by (auto simp: archive_messages_def)
  next
    case ne: False
    show ?thesis
    proof (cases "?cta = []")
      case True
      then have same: "first = r" "db1 = db" using first ne by (simp_all add: closed)
      then have "archive_messages env db1 minLength transcriptPath projectId' onProgress' messages
                   = Some (Inr first, db1)"
        using True ne by (simp add: archive_messages_closed [OF c])
      moreover have "archived first = 0" "duplicates first = archived first + duplicates first"
        using cc same by simp_all
      ultimately show ?thesis by blast
    next
      case False
      then obtain embeddings where
        st: "store_content env projectId (getSessionId transcriptPath) embeddings ?cta 0 (db, r) = (db1, first)"
        using first ne by (auto simp: closed split: sum.splits prod.splits)
      note counts = store_content_counts [OF st]
      have known: "contentExists env db1 x" if "x \<in> set ?cs" "?P x" for x
      proof (cases "contentExists env db x")
        case True
        then show ?thesis using store_content_exists [OF im st, of x] ce by simp
      next
        case False
        then have "x \<in> set (map fst ?cta)" using that by (simp add: map_fst_new_content)
        then have "hash x \<in> (\<lambda>item. hash (fst item)) ` set ?cta" by auto
        then show ?thesis using store_content_exists [OF im st, of x] ce by simp
      qed
      have none: "filter (\<lambda>c. ?P c \<and> \<not> contentExists env db1 c) ?cs = []"
        using known by (auto simp: filter_empty_conv)
      have all: "filter (\<lambda>c. ?P c \<and> contentExists env db1 c) ?cs = filter ?P ?cs"
        using known by (intro filter_cong) auto
      have new1: "new_content env db1 limit messages = []"
        using map_fst_new_content [of env db1 limit messages] none by simp
      let ?second = "zero_result\<lparr>skipped := skipped zero_result + length (filter (\<lambda>c. \<not> ?P c) ?cs),
             duplicates := duplicates zero_result + length (filter ?P ?cs)\<rparr>"
      have c1: "collect_content env db1 minLength messages (zero_result, []) = Inr (?second, [])"
        by (simp add: collect_content_limit [OF limit] new1 all)
      have run: "archive_messages env db1 minLength transcriptPath projectId' onProgress' messages = Some (Inr ?second, db1)"
        using ne by (simp add: archive_messages_closed [OF c1])
      have "length (filter ?P ?cs)
               = length (filter (\<lambda>c. ?P c \<and> contentExists env db c) ?cs)
                 + length (filter (\<lambda>c. ?P c \<and> \<not> contentExists env db c) ?cs)"
        using filter_three_way [of ?P ?cs "contentExists env db"] sum_length_filter_compl [of ?P ?cs]
        by simp
      then have d: "length (filter ?P ?cs) = duplicates r + length ?cta"
        using r by (simp add: length_new_content)
      have "archived ?second = 0" "skipped ?second = skipped first"
        "duplicates ?second = archived first + duplicates first"
        using counts cc r d by (simp_all add: zero_result_def)
      with run show ?thesis by blast
    qed
  qed
qed

text \<open>
  C1 (as amended). With the store of section 4.3, when a run of \<open>archiveSession\<close> on a
  transcript returns a result, a second run on the same transcript against the store that the
  first run produced returns \<open>archived = 0\<close>, the same \<open>skipped\<close> count, and \<open>duplicates\<close>
  equal to the archived count plus the duplicates count of the first run; it leaves the store
  unchanged.
\<close>

theorem archiveSession_second_run:
  assumes "contentExists env = store_contentExists hash"
    and "insertMemory env = store_insert hash"
    and "archiveSession env db transcriptPath projectId onProgress = Some (Inr first, db1)"
  shows "\<exists>second. archiveSession env db1 transcriptPath projectId' onProgress' = Some (Inr second, db1)
           \<and> archived second = 0 \<and> skipped second = skipped first
           \<and> duplicates second = archived first + duplicates first"
proof (cases "effective_minLength env")
  case (Inl e)
  then show ?thesis using assms(3) by (simp add: archiveSession_closed)
next
  case configured: (Inr minLength)
  show ?thesis
  proof (cases "parseTranscript (JSON_parse env) (read_file env) transcriptPath")
    case (Inl e)
    then show ?thesis using assms(3) configured by (simp add: archiveSession_closed)
  next
    case (Inr messages)
    then show ?thesis
      using second_run [OF assms(1,2), of db minLength transcriptPath projectId onProgress messages
                          first db1 projectId' onProgress']
        assms(3) configured
      by (simp add: archiveSession_closed)
  qed
qed

lemma demo_store_has: "store_contentExists (\<lambda>c. c) demo_store c \<longleftrightarrow> c = demo_chunk"
  by (auto simp: store_contentExists_def demo_store_def demo_fragment_def)

lemma demo_second_run:
  "archiveSession demo_env demo_store demo_path None True
     = Some (Inr \<lparr>archived = 0, skipped = 1, duplicates = 1\<rparr>, demo_store)"
proof -
  have "filter is_assistant [demo_assistant, demo_user] = [demo_assistant]"
    by (simp add: is_assistant_def demo_assistant_def demo_user_def)
  then have "new_content demo_env demo_store (Finite 50) [demo_assistant, demo_user] = []"
    by (simp add: new_content_def demo_chunks demo_chunk_passes dull_chunk_fails
          demo_env_fields demo_store_has)
  then have "collect_content demo_env demo_store (Num (Finite 50)) [demo_assistant, demo_user] (zero_result, [])
     = Inr (\<lparr>archived = 0, skipped = 1, duplicates = 1\<rparr>, [])"
    by (simp add: collect_content_closed [OF demo_env_fields(4)] demo_candidates demo_chunk_passes
          dull_chunk_fails zero_result_def demo_env_fields demo_store_has
          del: collect_content.simps)
  then show ?thesis
    by (simp add: archiveSession_closed demo_env_fields demo_messages archive_messages_closed
          del: store_content.simps collect_content.simps)
qed

text \<open>The sample run of C1, twice.\<close>

theorem archiveSession_second_run_witness:
  "archiveSession demo_env empty_store demo_path None True
     = Some (Inr \<lparr>archived = 1, skipped = 1, duplicates = 0\<rparr>, demo_store)
   \<and> archiveSession demo_env demo_store demo_path None True
     = Some (Inr \<lparr>archived = 0, skipped = 1, duplicates = 1\<rparr>, demo_store)"
proof -
  obtain second where
    "archiveSession demo_env demo_store demo_path None True = Some (Inr second, demo_store)"
    "archived second = 0" "skipped second = 1" "duplicates second = 1"
    using archiveSession_second_run [of demo_env "\<lambda>c. c" empty_store demo_path None True
            "\<lparr>archived = 1, skipped = 1, duplicates = 0\<rparr>" demo_store None True]
    by (auto simp: demo_env_fields demo_first_run)
  moreover from this have "second = \<lparr>archived = 0, skipped = 1, duplicates = 1\<rparr>"
    by (cases second) simp
  ultimately show ?thesis using demo_first_run by simp
qed

lemma repeat_env_fields:
  "JSON_parse repeat_env = repeat_parse" "read_file repeat_env = demo_disk"
  "effective_minLength repeat_env = Inr (Num (Finite 50))"
  "ToNumber (to_number repeat_env) (Num (Finite 50)) = Inr (Finite 50)"
  "contentExists repeat_env = store_contentExists (\<lambda>c. c)"
  "insertMemory repeat_env = store_insert (\<lambda>c. c)" "initEmbedder repeat_env = Inr (\<lambda>t. Inr (length t))"
  by (simp_all add: repeat_env_def demo_env_def effective_minLength_def loadConfig_def
        default_minLength and_then_def)

lemma repeat_messages: "parseTranscript repeat_parse demo_disk demo_path = Inr [repeat_assistant]"
  by (simp add: parseTranscript_def demo_disk_def demo_path_def parse_line_def js_trim_def is_ws_def
        repeat_parse_def line_message_def and_then_def extractTextContent_def repeat_assistant_def)

lemma repeat_chunks: "extractChunks (msg_content repeat_assistant) = [demo_chunk, demo_chunk]"
  unfolding repeat_assistant_def demo_chunk_def by code_simp

lemma repeat_candidates: "chunk_candidates [repeat_assistant] = [demo_chunk, demo_chunk]"
  by (simp add: chunk_candidates_def is_assistant_def repeat_chunks)
     (simp add: repeat_assistant_def)

lemma repeat_store_has: "store_contentExists (\<lambda>c. c) repeat_store c \<longleftrightarrow> c = demo_chunk"
  by (auto simp: store_contentExists_def repeat_store_def demo_fragment_def)

lemma repeat_first_run:
  "archiveSession repeat_env empty_store demo_path None True
     = Some (Inr \<lparr>archived = 1, skipped = 0, duplicates = 1\<rparr>, repeat_store)"
proof -
  have "filter is_assistant [repeat_assistant] = [repeat_assistant]"
    by (simp add: is_assistant_def repeat_assistant_def)
  moreover have "msg_timestamp repeat_assistant = Undefined" by (simp add: repeat_assistant_def)
  ultimately have "new_content repeat_env empty_store (Finite 50) [repeat_assistant]
                     = [(demo_chunk, Now), (demo_chunk, Now)]"
    by (simp add: new_content_def repeat_chunks demo_chunk_passes
          repeat_env_fields empty_store_has_nothing message_date_def)
  then have collected: "collect_content repeat_env empty_store (Num (Finite 50)) [repeat_assistant] (zero_result, [])
     = Inr (\<lparr>archived = 0, skipped = 0, duplicates = 0\<rparr>, [(demo_chunk, Now), (demo_chunk, Now)])"
    by (simp add: collect_content_closed [OF repeat_env_fields(4)] repeat_candidates demo_chunk_passes
          zero_result_def repeat_env_fields empty_store_has_nothing
          del: collect_content.simps)
  have embed: "embed_outcome repeat_env [demo_chunk, demo_chunk] = Inr [61, 61]"
    by (simp add: embed_outcome_def repeat_env_fields demo_embedding)
  have store: "store_content repeat_env None ''session'' [61, 61]
                 [(demo_chunk, Now), (demo_chunk, Now)] 0
                 (empty_store, \<lparr>archived = 0, skipped = 0, duplicates = 0\<rparr>)
               = (repeat_store, \<lparr>archived = 1, skipped = 0, duplicates = 1\<rparr>)"
    by (simp add: repeat_env_fields store_insert_def empty_store_def repeat_store_def demo_fragment_def)
  show ?thesis
    by (simp add: archiveSession_closed repeat_env_fields repeat_messages
          archive_messages_closed [OF collected] embed store demo_session
          del: store_content.simps collect_content.simps)
qed

lemma repeat_second_run:
  "archiveSession repeat_env repeat_store demo_path None True
     = Some (Inr \<lparr>archived = 0, skipped = 0, duplicates = 2\<rparr>, repeat_store)"
proof -
  have "filter is_assistant [repeat_assistant] = [repeat_assistant]"
    by (simp add: is_assistant_def repeat_assistant_def)
  then have "new_content repeat_env repeat_store (Finite 50) [repeat_assistant] = []"
    by (simp add: new_content_def repeat_chunks demo_chunk_passes
          repeat_env_fields repeat_store_has)
  then have "collect_content repeat_env repeat_store (Num (Finite 50)) [repeat_assistant] (zero_result, [])
     = Inr (\<lparr>archived = 0, skipped = 0, duplicates = 2\<rparr>, [])"
    by (simp add: collect_content_closed [OF repeat_env_fields(4)] repeat_candidates demo_chunk_passes
          zero_result_def repeat_env_fields repeat_store_has
          del: collect_content.simps)
  then show ?thesis
    by (simp add: archiveSession_closed repeat_env_fields repeat_messages archive_messages_closed
          del: store_content.simps collect_content.simps)
qed

text \<open>
  C1 as stated fails: on a transcript that holds the same paragraph twice, the first run against
  the empty store archives one fragment and counts one duplicate, and the second run counts two
  duplicates, not one.
\<close>

theorem archiveSession_repeated_chunk_counterexample:
  "archiveSession repeat_env empty_store demo_path None True
     = Some (Inr \<lparr>archived = 1, skipped = 0, duplicates = 1\<rparr>, repeat_store)
   \<and> archiveSession repeat_env repeat_store demo_path None True
     = Some (Inr \<lparr>archived = 0, skipped = 0, duplicates = 2\<rparr>, repeat_store)
   \<and> duplicates \<lparr>archived = 0, skipped = 0, duplicates = 2\<rparr>
       \<noteq> archived \<lparr>archived = 1, skipped = 0, duplicates = 1\<rparr>"
  by (simp add: repeat_first_run repeat_second_run)

subsection \<open>The length of the chunks\<close>

lemma split_at_skip:
  assumes "\<And>p c s. c \<in> set xs \<Longrightarrow> m p (c # s) = 0" and "xs \<noteq> []"
  shows "split_at m prev cur (xs @ rest) = split_at m (Some (last xs)) (cur @ xs) rest"
  using assms
proof (induction xs arbitrary: prev cur)
  case Nil
  then show ?case by simp
next
  case (Cons x xs)
  have step: "split_at m prev cur ((x # xs) @ rest) = split_at m (Some x) (cur @ [x]) (xs @ rest)"
    using Cons.prems(1) [of x] by simp
  show ?case
  proof (cases "xs = []")
    case True
    then show ?thesis using step by simp
  next
    case False
    have "split_at m (Some x) (cur @ [x]) (xs @ rest) = split_at m (Some (last xs)) ((cur @ [x]) @ xs) rest"
      using Cons.prems(1) False by (intro Cons.IH) auto
    then show ?thesis using step False by simp
  qed
qed

lemma long_sentence_facts:
  "length long_sentence = 400" "long_sentence \<noteq> []" "hd long_sentence = CHR ''a''"
  "last long_sentence = CHR ''.''" "set long_sentence = {CHR ''a'', CHR ''.''}"
  by (auto simp: long_sentence_def hd_append)

lemma long_paragraph_facts:
  "length long_paragraph = 1202" "long_paragraph \<noteq> []" "hd long_paragraph = CHR ''a''"
  "last long_paragraph = CHR ''.''" "set long_paragraph = {CHR ''a'', CHR ''.'', CHR '' ''}"
  by (auto simp: long_paragraph_def long_sentence_facts hd_append)

lemma long_paragraph_one: "js_split match_blank_lines long_paragraph = [long_paragraph]"
proof -
  have "split_at match_blank_lines None [] (long_paragraph @ []) 
          = split_at match_blank_lines (Some (last long_paragraph)) ([] @ long_paragraph) []"
    by (rule split_at_skip) (auto simp: long_paragraph_facts match_blank_lines_def)
  then show ?thesis by (simp add: js_split_def)
qed

lemma long_paragraph_sentences:
  "js_split match_sentence_break long_paragraph = [long_sentence, long_sentence, long_sentence]"
proof -
  let ?m = match_sentence_break
  have skip: "split_at ?m prev cur (long_sentence @ rest)
                = split_at ?m (Some CHR ''.'') (cur @ long_sentence) rest" for prev cur rest
  proof -
    have "split_at ?m prev cur (long_sentence @ rest)
                = split_at ?m (Some (last long_sentence)) (cur @ long_sentence) rest"
    proof (rule split_at_skip)
      show "long_sentence \<noteq> []" by (rule long_sentence_facts(2))
      show "?m p (c # s) = 0" if "c \<in> set long_sentence" for p c s
        using that by (auto simp: long_sentence_facts(5) match_sentence_break_def is_ws_def)
    qed
    then show ?thesis by (simp add: long_sentence_facts(4))
  qed
  have brk: "split_at ?m (Some CHR ''.'') cur ('' '' @ long_sentence @ rest)
               = cur # split_at ?m (Some CHR '' '') [] (long_sentence @ rest)" for cur rest
  proof -
    obtain rest' where ls: "long_sentence = CHR ''a'' # rest'"
      using long_sentence_facts(2,3) by (metis list.collapse)
    have "takeWhile is_ws (long_sentence @ rest) = []"
      unfolding ls by (simp add: is_ws_def)
    then have "?m (Some CHR ''.'') (CHR '' '' # long_sentence @ rest) = 1"
      by (simp add: match_sentence_break_def is_ws_def)
    then show ?thesis by simp
  qed
  have "split_at ?m None [] (long_sentence @ '' '' @ long_sentence @ '' '' @ long_sentence @ [])
          = [long_sentence, long_sentence, long_sentence]"
    by (simp only: skip brk append_Nil split_at.simps(1))
  then show ?thesis by (simp add: js_split_def long_paragraph_def)
qed

lemma long_tidy: "tidy long_sentence" "tidy (long_sentence @ '' '' @ long_sentence)" "tidy long_paragraph"
  by (auto simp: tidy_def long_sentence_facts long_paragraph_facts is_ws_def hd_append)

lemma long_trim:
  "js_trim long_sentence = long_sentence"
  "js_trim (long_sentence @ CHR '' '' # long_sentence) = long_sentence @ CHR '' '' # long_sentence"
  "js_trim long_paragraph = long_paragraph"
  using long_tidy js_trim_id by auto

lemma long_chunks:
  "extractChunks long_paragraph = [long_sentence @ '' '' @ long_sentence, long_sentence]"
  by (simp add: extractChunks_def long_trim long_paragraph_one chunk_paragraph_def js_trim_id long_tidy
        long_paragraph_facts MIN_CONTENT_LENGTH_def split_long_paragraph_def long_paragraph_sentences
        long_sentence_facts)

text \<open>
  C3 (as amended). Every chunk emitted by the chunker \<open>extractChunks\<close> has at least the
  compiled-in minimum length \<open>MIN_CONTENT_LENGTH = 50\<close>, and it is either a whole trimmed
  paragraph of at most 1000 characters or, on the long-paragraph path, a chunk that exceeds 800
  characters by at most one trailing sentence: it ends with a sentence of the paragraph, and
  what precedes that sentence has at most 800 characters. This holds for the final remainder
  too. The configured minimum is applied behind the chunker, by the length gate of
  \<open>archiveSession\<close>: every chunk that a run hands on to the embedder has at least 50
  characters and is not shorter than the minimum length the run uses (the comparison
  \<open>chunk.length < minLength\<close> is false), so it has at least that length when the minimum is
  a finite number.
\<close>

theorem extractChunks_length_bound:
  "(c \<in> set (extractChunks content) \<longrightarrow>
      MIN_CONTENT_LENGTH \<le> length c
      \<and> (\<exists>para \<in> set (js_split match_blank_lines content).
            (length (js_trim para) \<le> 1000 \<and> c = js_trim para)
            \<or> (length (js_trim para) > 1000
                \<and> (\<exists>pre sentence. sentence \<in> set (js_split match_sentence_break (js_trim para))
                      \<and> c = pre @ sentence \<and> length pre \<le> 800))))
   \<and> (collect_content env db minLength messages (zero_result, []) = Inr (result, contentToArchive)
        \<and> item \<in> set contentToArchive \<longrightarrow>
        MIN_CONTENT_LENGTH \<le> length (fst item)
        \<and> (\<exists>limit. ToNumber (to_number env) minLength = Inr limit
               \<and> \<not> number_lt (Finite (real (length (fst item)))) limit)
        \<and> (\<forall>x. minLength = Num (Finite x) \<longrightarrow> x \<le> real (length (fst item))))"
proof (intro conjI impI)
  assume "c \<in> set (extractChunks content)"
  then have ok: "chunk_ok (js_split match_blank_lines content) c" using extractChunks_ok by blast
  then show "MIN_CONTENT_LENGTH \<le> length c" by (simp add: chunk_ok_def)
  from ok show "\<exists>para \<in> set (js_split match_blank_lines content).
            (length (js_trim para) \<le> 1000 \<and> c = js_trim para)
            \<or> (length (js_trim para) > 1000
                \<and> (\<exists>pre sentence. sentence \<in> set (js_split match_sentence_break (js_trim para))
                      \<and> c = pre @ sentence \<and> length pre \<le> 800))"
    unfolding chunk_ok_def one_sentence_over_def by blast
next
  assume h: "collect_content env db minLength messages (zero_result, []) = Inr (result, contentToArchive)
        \<and> item \<in> set contentToArchive"
  then have "collect_content env db minLength messages (zero_result, []) = Inr (result, contentToArchive)"
    by simp
  then obtain limit where
    limit: "ToNumber (to_number env) minLength = Inr limit \<or> chunk_candidates messages = []"
    and cta: "contentToArchive = new_content env db limit messages"
    by (rule collect_content_Inr) auto
  from h cta have i: "item \<in> set (new_content env db limit messages)" by simp
  then have "chunk_candidates messages \<noteq> []" using new_content_no_candidates [of messages env db limit] by auto
  with limit have converted: "ToNumber (to_number env) minLength = Inr limit" by simp
  from new_content_origin [OF i]
  obtain message :: TranscriptMessage
    where "fst item \<in> set (extractChunks (msg_content message))" by auto
  then have "chunk_ok (js_split match_blank_lines (msg_content message)) (fst item)"
    using extractChunks_ok by blast
  then show "MIN_CONTENT_LENGTH \<le> length (fst item)" by (simp add: chunk_ok_def)
  from i have "passes_gates limit (fst item)" by (auto simp: new_content_def)
  then have gate: "\<not> number_lt (Finite (real (length (fst item)))) limit" by (simp add: passes_gates_def)
  with converted show "\<exists>limit. ToNumber (to_number env) minLength = Inr limit
               \<and> \<not> number_lt (Finite (real (length (fst item)))) limit"
    by blast
  show "\<forall>x. minLength = Num (Finite x) \<longrightarrow> x \<le> real (length (fst item))"
    using converted gate by auto
qed

text \<open>
  A run of C3 on the long-paragraph path: the first chunk has 801 characters, 401 of them before
  its last sentence.
\<close>

theorem extractChunks_length_bound_witness:
  "long_sentence @ '' '' @ long_sentence \<in> set (extractChunks long_paragraph)
   \<and> length (long_sentence @ '' '' @ long_sentence) = 801
   \<and> MIN_CONTENT_LENGTH \<le> length (long_sentence @ '' '' @ long_sentence)
   \<and> long_sentence @ '' '' @ long_sentence = (long_sentence @ '' '') @ long_sentence
   \<and> length (long_sentence @ '' '') \<le> 800
   \<and> collect_content demo_env empty_store (Num (Finite 50)) [demo_assistant, demo_user] (zero_result, [])
       = Inr (\<lparr>archived = 0, skipped = 1, duplicates = 0\<rparr>,
              [(demo_chunk, DateOf (Str ''2024-06-15T10:00:30.000Z''))])
   \<and> (50 :: real) \<le> real (length demo_chunk)"
proof -
  have 1: "long_sentence @ '' '' @ long_sentence \<in> set (extractChunks long_paragraph)"
    by (simp add: long_chunks)
  have 2: "(demo_chunk, DateOf (Str ''2024-06-15T10:00:30.000Z''))
        \<in> set [(demo_chunk, DateOf (Str ''2024-06-15T10:00:30.000Z''))]"
    by simp
  from extractChunks_length_bound
         [of "long_sentence @ '' '' @ long_sentence" long_paragraph
             demo_env empty_store "Num (Finite 50)" "[demo_assistant, demo_user]"
             "\<lparr>archived = 0, skipped = 1, duplicates = 0\<rparr>"
             "[(demo_chunk, DateOf (Str ''2024-06-15T10:00:30.000Z''))]"
             "(demo_chunk, DateOf (Str ''2024-06-15T10:00:30.000Z''))"] 1 2 demo_collected
  have "MIN_CONTENT_LENGTH \<le> length (long_sentence @ '' '' @ long_sentence)"
    and "(50 :: real) \<le> real (length demo_chunk)"
    by simp_all
  then show ?thesis using 1 demo_collected by (simp add: long_sentence_facts del: collect_content.simps)
qed

lemma sixty_chunk: "extractChunks sixty = [sixty]"
  unfolding sixty_def by code_simp

text \<open>
  C3 as stated fails: with the preset \<open>essential\<close> the configured minimum content length is
  100, and the chunker emits a paragraph of 60 characters as a chunk.
\<close>

theorem extractChunks_configured_minimum_counterexample:
  "applyPreset Essential = Inr essential_config
   \<and> archive_minContentLength essential_config = Inr (Num (Finite 100))
   \<and> extractChunks sixty = [sixty]
   \<and> number_lt (Finite (real (length sixty))) (Finite 100)"
  by (simp add: sixty_chunk)
     (simp add: applyPreset_def deepMerge_def DEFAULT_CONFIG_def DEFAULT_STATUSLINE_CONFIG_def
        DEFAULT_ARCHIVE_CONFIG_def DEFAULT_MONITOR_CONFIG_def essential_config_def
        archive_minContentLength_def and_then_def sixty_def set_property_def)

section \<open>Properties of the configuration merge\<close>

lemma map_of_replace_value:
  "map_of props key \<noteq> None \<Longrightarrow> map_of (replace_value key v props) = (map_of props)(key \<mapsto> v)"
  by (induction props) (auto simp: fun_eq_iff)

lemma map_of_insert_index:
  "map_of props key = None \<Longrightarrow> map_of (insert_index key v props) = (map_of props)(key \<mapsto> v)"
  by (induction props) (auto simp: fun_eq_iff split: if_splits)

lemma map_of_set_property:
  "map_of (set_property key v props)
     = (if key = ''__proto__'' \<and> map_of props key = None then map_of props
        else (map_of props)(key \<mapsto> v))"
proof (cases "map_of props key")
  case None
  then have "key \<notin> fst ` set props" by (simp add: map_of_eq_None_iff)
  then show ?thesis using None
    by (auto simp: set_property_def map_of_insert_index fun_eq_iff map_add_def split: option.splits)
next
  case (Some x)
  then show ?thesis by (simp add: set_property_def map_of_replace_value)
qed

lemma deepMerge_fields_step:
  "deepMerge_fields target result ((key, sourceValue) # rest)
     = deepMerge_fields target
         (if sourceValue = Undefined then result
          else set_property key (merged_value (map_of target key) sourceValue) result) rest"
  by (simp add: merged_value_def split: jsval.split option.split)

lemma deepMerge_fields_other_key:
  "key \<notin> fst ` set source
   \<Longrightarrow> map_of (deepMerge_fields target result source) key = map_of result key"
proof (induction source arbitrary: result)
  case Nil
  show ?case by simp
next
  case (Cons entry rest)
  obtain k sourceValue where entry: "entry = (k, sourceValue)" by (cases entry)
  have k: "k \<noteq> key" and rest: "key \<notin> fst ` set rest" using Cons.prems entry by auto
  show ?case
    unfolding entry deepMerge_fields_step
    using k by (simp add: Cons.IH [OF rest] map_of_set_property)
qed

lemma deepMerge_fields_key:
  assumes "distinct (map fst source)"
  shows "map_of (deepMerge_fields target result source) key =
     (case map_of source key of
        None \<Rightarrow> map_of result key
      | Some sourceValue \<Rightarrow>
          if sourceValue = Undefined \<or> (key = ''__proto__'' \<and> map_of result key = None)
          then map_of result key
          else Some (merged_value (map_of target key) sourceValue))"
  using assms
proof (induction source arbitrary: result)
  case Nil
  show ?case by simp
next
  case (Cons entry rest)
  obtain k sourceValue where entry: "entry = (k, sourceValue)" by (cases entry)
  have d: "distinct (map fst rest)" and fresh: "k \<notin> fst ` set rest"
    using Cons.prems entry by auto
  show ?case
  proof (cases "k = key")
    case True
    then have rest: "key \<notin> fst ` set rest" using fresh by simp
    show ?thesis
      unfolding entry deepMerge_fields_step
      using True by (auto simp: deepMerge_fields_other_key [OF rest] map_of_set_property)
  next
    case False
    show ?thesis
      unfolding entry deepMerge_fields_step
      using False by (auto simp: Cons.IH [OF d] map_of_set_property split: option.split)
  qed
qed

lemma loadConfig_merged:
  "parse content = Some loaded
   \<Longrightarrow> loadConfig parse (ConfigText content)
         = Obj (deepMerge_fields (own_properties DEFAULT_CONFIG) (own_properties DEFAULT_CONFIG)
                  (own_properties loaded))"
  by (cases loaded) (simp_all add: loadConfig_def deepMerge_def DEFAULT_CONFIG_def)

text \<open>
  C9 (as amended). When the configuration file parses, \<open>loadConfig\<close> merges all of it onto
  the defaults, whatever the shape of the configuration: the result is an object whose own
  fields are, key by key, those of the merge. A key that the file does not have (or has with
  the value \<open>undefined\<close>) keeps its default; every other key of the file, recognised or not,
  is a field of the result, except that the key \<open>__proto__\<close> creates no field; its value is
  the file's value, or the merge of the default value and the file's value when both are
  objects. The same holds at every depth: it holds for every merge of fields onto fields.
\<close>

theorem loadConfig_merges_every_field:
  assumes "parse content = Some loaded" and "distinct (map fst (own_properties loaded))"
  shows "(\<exists>merged. loadConfig parse (ConfigText content) = Obj merged
            \<and> (\<forall>key. map_of merged key
                        = merged_field (own_properties DEFAULT_CONFIG) (own_properties loaded) key))
       \<and> (\<forall>target source key.
             distinct (map fst source)
             \<longrightarrow> map_of (deepMerge_fields target target source) key = merged_field target source key)"
proof (intro conjI allI impI)
  have "\<forall>key. map_of (deepMerge_fields (own_properties DEFAULT_CONFIG) (own_properties DEFAULT_CONFIG)
                        (own_properties loaded)) key
               = merged_field (own_properties DEFAULT_CONFIG) (own_properties loaded) key"
    by (simp add: deepMerge_fields_key [OF assms(2)] merged_field_def)
  then show "\<exists>merged. loadConfig parse (ConfigText content) = Obj merged
            \<and> (\<forall>key. map_of merged key
                        = merged_field (own_properties DEFAULT_CONFIG) (own_properties loaded) key)"
    using loadConfig_merged [of parse content loaded, OF assms(1)] by blast
next
  fix target source :: "(string \<times> jsval) list" and key
  assume "distinct (map fst source)"
  then show "map_of (deepMerge_fields target target source) key = merged_field target source key"
    by (simp add: deepMerge_fields_key merged_field_def)
qed

lemma demo_config_loaded:
  "loadConfig (\<lambda>content. Some demo_config) (ConfigText ''text'')
     = Obj [(''statusline'', DEFAULT_STATUSLINE_CONFIG),
            (''archive'',
             Obj [(''autoOnCompact'', Bool True), (''projectScope'', Bool True),
                  (''minContentLength'', Num (Finite 100)), (''verbose'', Bool True)]),
            (''monitor'', DEFAULT_MONITOR_CONFIG),
            (''theme'', Str ''dark'')]"
  by (simp add: loadConfig_def deepMerge_def demo_config_def DEFAULT_CONFIG_def DEFAULT_ARCHIVE_CONFIG_def
        set_property_def is_array_index_def)

text \<open>
  A run of C9: the file of the second example. The unrecognised fields \<open>theme\<close> and
  \<open>archive.verbose\<close> are fields of the result, \<open>monitor\<close> keeps its default, and
  \<open>__proto__\<close> is no field of the result.
\<close>

theorem loadConfig_merges_every_field_witness:
  "distinct (map fst (own_properties demo_config))
   \<and> loadConfig (\<lambda>content. Some demo_config) (ConfigText ''text'')
       = Obj [(''statusline'', DEFAULT_STATUSLINE_CONFIG),
              (''archive'',
               Obj [(''autoOnCompact'', Bool True), (''projectScope'', Bool True),
                    (''minContentLength'', Num (Finite 100)), (''verbose'', Bool True)]),
              (''monitor'', DEFAULT_MONITOR_CONFIG),
              (''theme'', Str ''dark'')]
   \<and> merged_field (own_properties DEFAULT_CONFIG) (own_properties demo_config) ''theme'' = Some (Str ''dark'')
   \<and> merged_field (own_properties DEFAULT_CONFIG) (own_properties demo_config) ''monitor''
       = Some DEFAULT_MONITOR_CONFIG
   \<and> merged_field (own_properties DEFAULT_CONFIG) (own_properties demo_config) ''__proto__'' = None
   \<and> merged_field (own_properties DEFAULT_ARCHIVE_CONFIG)
        [(''minContentLength'', Num (Finite 100)), (''verbose'', Bool True)] ''verbose''
       = Some (Bool True)"
proof -
  have d: "distinct (map fst (own_properties demo_config))" by (simp add: demo_config_def)
  note merged = loadConfig_merges_every_field [of "\<lambda>content. Some demo_config" "''text''" demo_config, OF refl d]
  from merged have top: "map_of [(''statusline'', DEFAULT_STATUSLINE_CONFIG),
              (''archive'',
               Obj [(''autoOnCompact'', Bool True), (''projectScope'', Bool True),
                    (''minContentLength'', Num (Finite 100)), (''verbose'', Bool True)]),
              (''monitor'', DEFAULT_MONITOR_CONFIG),
              (''theme'', Str ''dark'')] key
          = merged_field (own_properties DEFAULT_CONFIG) (own_properties demo_config) key" for key
    by (simp add: demo_config_loaded)
  have "distinct (map fst [(''minContentLength'', Num (Finite 100)), (''verbose'', Bool True)])" by simp
  with merged have nested:
    "map_of (deepMerge_fields (own_properties DEFAULT_ARCHIVE_CONFIG) (own_properties DEFAULT_ARCHIVE_CONFIG)
               [(''minContentLength'', Num (Finite 100)), (''verbose'', Bool True)]) ''verbose''
       = merged_field (own_properties DEFAULT_ARCHIVE_CONFIG)
           [(''minContentLength'', Num (Finite 100)), (''verbose'', Bool True)] ''verbose''"
    by blast
  have 1: "merged_field (own_properties DEFAULT_CONFIG) (own_properties demo_config) ''theme'' = Some (Str ''dark'')"
    using top [of "''theme''"] by simp
  have 2: "merged_field (own_properties DEFAULT_CONFIG) (own_properties demo_config) ''monitor''
       = Some DEFAULT_MONITOR_CONFIG"
    using top [of "''monitor''"] by simp
  have 3: "merged_field (own_properties DEFAULT_CONFIG) (own_properties demo_config) ''__proto__'' = None"
    using top [of "''__proto__''"] by simp
  have 4: "merged_field (own_properties DEFAULT_ARCHIVE_CONFIG)
        [(''minContentLength'', Num (Finite 100)), (''verbose'', Bool True)] ''verbose''
       = Some (Bool True)"
    using nested by (simp add: DEFAULT_ARCHIVE_CONFIG_def set_property_def is_array_index_def)
  show ?thesis by (intro conjI d demo_config_loaded 1 2 3 4)
qed

text \<open>
  C9 as stated fails: the field \<open>theme\<close> is not part of the configuration shape and is
  copied from the file into the loaded configuration; so is the field \<open>verbose\<close> inside the
  recognised section \<open>archive\<close>.
\<close>

theorem loadConfig_unknown_field_counterexample:
  "map_of (own_properties DEFAULT_CONFIG) ''theme'' = None
   \<and> loadConfig (\<lambda>content. Some (Obj [(''theme'', Str ''dark'')])) (ConfigText ''text'')
       = Obj [(''statusline'', DEFAULT_STATUSLINE_CONFIG), (''archive'', DEFAULT_ARCHIVE_CONFIG),
              (''monitor'', DEFAULT_MONITOR_CONFIG), (''theme'', Str ''dark'')]
   \<and> map_of (own_properties DEFAULT_ARCHIVE_CONFIG) ''verbose'' = None
   \<and> loadConfig (\<lambda>content. Some (Obj [(''archive'', Obj [(''verbose'', Bool True)])])) (ConfigText ''text'')
       = Obj [(''statusline'', DEFAULT_STATUSLINE_CONFIG),
              (''archive'',
               Obj [(''autoOnCompact'', Bool True), (''projectScope'', Bool True),
                    (''minContentLength'', Num (Finite 50)), (''verbose'', Bool True)]),
              (''monitor'', DEFAULT_MONITOR_CONFIG)]"
  by (simp add: loadConfig_def deepMerge_def DEFAULT_CONFIG_def DEFAULT_ARCHIVE_CONFIG_def
        set_property_def is_array_index_def)

section \<open>Properties of the rank fusion\<close>

lemma rank_in_absent: "fid \<notin> set ranked \<Longrightarrow> rank_in fid ranked r = None"
  by (induction ranked arbitrary: r) auto

lemma rank_in_position:
  "k < length ranked \<Longrightarrow> distinct ranked \<Longrightarrow> rank_in (ranked ! k) ranked r = Some (r + k)"
proof (induction ranked arbitrary: k r)
  case Nil
  then show ?case by simp
next
  case (Cons x xs)
  show ?case
  proof (cases k)
    case 0
    then show ?thesis by simp
  next
    case (Suc j)
    then have j: "j < length xs" and d: "distinct xs" using Cons.prems by auto
    have "xs ! j \<in> set xs" using j by simp
    then have "x \<noteq> xs ! j" using Cons.prems(2) by auto
    then show ?thesis using Suc Cons.IH [OF j d, of "r + 1"] by simp
  qed
qed

lemma outranks_total: "\<not> outranks a b \<Longrightarrow> outranks b a"
  by (auto simp: outranks_def)

lemma outranks_trans: "outranks a b \<Longrightarrow> outranks b c \<Longrightarrow> outranks a c"
  by (auto simp: outranks_def)

lemma set_insert_ranked: "set (insert_ranked a xs) = insert a (set xs)"
  by (induction xs) auto

lemma sorted_insert_ranked:
  "sorted_wrt outranks xs \<Longrightarrow> sorted_wrt outranks (insert_ranked a xs)"
proof (induction xs)
  case Nil
  show ?case by simp
next
  case (Cons b bs)
  show ?case
  proof (cases "outranks a b")
    case True
    then have "\<forall>c \<in> set bs. outranks a c" using Cons.prems outranks_trans by auto
    then show ?thesis using True Cons.prems by simp
  next
    case False
    then have "outranks b a" by (rule outranks_total)
    then show ?thesis using False Cons by (auto simp: set_insert_ranked)
  qed
qed

lemma set_rank_all: "set (rank_all xs) = set xs"
  by (induction xs) (auto simp: rank_all_def set_insert_ranked)

lemma sorted_rank_all: "sorted_wrt outranks (rank_all xs)"
  by (induction xs) (auto simp: rank_all_def sorted_insert_ranked)

lemma set_fuse_all:
  "set (fuse_all now rows keywordRanked vectorRanked)
     = fused_result now rows keywordRanked vectorRanked ` (set keywordRanked \<union> set vectorRanked)"
  by (simp add: fuse_all_def set_rank_all)

lemma sorted_take_drop:
  "sorted_wrt R xs \<Longrightarrow> a \<in> set (take n xs) \<Longrightarrow> b \<in> set (drop n xs) \<Longrightarrow> R a b"
proof -
  assume s: "sorted_wrt R xs" and a: "a \<in> set (take n xs)" and b: "b \<in> set (drop n xs)"
  have "sorted_wrt R (take n xs @ drop n xs)" using s by simp
  then show ?thesis using a b unfolding sorted_wrt_append by blast
qed

text \<open>
  C4. In the rank fusion of section 4.6, a fragment at the 1-indexed position \<open>r = k + 1\<close> of a
  ranked list contributes \<open>1 / (60 + r)\<close> from that list and a fragment absent from the list
  contributes 0; every result is a fragment of one of the two lists, and its score is the sum of
  its contributions multiplied by the decay factor \<open>2^(-ageInDays / 7)\<close>, the age running from
  the fragment's timestamp to the time of the query; the results are sorted descending by that
  score, ties broken by the more recent timestamp, then by the lower id; they are the first 5
  of the ranking of all fused fragments by default and the first \<open>l\<close> for a limit \<open>l\<close>, and
  whatever is cut off is outranked by everything that is kept.
\<close>

theorem rankFusion_ranking:
  "(k < length ranked \<and> distinct ranked \<longrightarrow> contribution ranked (ranked ! k) = 1 / (60 + real (k + 1)))
   \<and> (fid \<notin> set ranked \<longrightarrow> contribution ranked fid = 0)
   \<and> (\<forall>res \<in> set (rankFusion now rows keywordRanked vectorRanked limit).
         res_id res \<in> set keywordRanked \<union> set vectorRanked
         \<and> res_timestamp res = row_timestamp (rows (res_id res))
         \<and> res_score res
             = (contribution keywordRanked (res_id res) + contribution vectorRanked (res_id res))
               * 2 powr (- ((now - res_timestamp res) / 86400000) / 7))
   \<and> sorted_wrt outranks (rankFusion now rows keywordRanked vectorRanked limit)
   \<and> rankFusion now rows keywordRanked vectorRanked None
       = take 5 (fuse_all now rows keywordRanked vectorRanked)
   \<and> rankFusion now rows keywordRanked vectorRanked (Some l)
       = take l (fuse_all now rows keywordRanked vectorRanked)
   \<and> res_id ` set (fuse_all now rows keywordRanked vectorRanked) = set keywordRanked \<union> set vectorRanked
   \<and> (\<forall>a \<in> set (take n (fuse_all now rows keywordRanked vectorRanked)).
        \<forall>b \<in> set (drop n (fuse_all now rows keywordRanked vectorRanked)). outranks a b)"
proof (intro conjI impI ballI)
  assume "k < length ranked \<and> distinct ranked"
  then show "contribution ranked (ranked ! k) = 1 / (60 + real (k + 1))"
    by (simp add: contribution_def rank_in_position RRF_K_def)
next
  assume "fid \<notin> set ranked"
  then show "contribution ranked fid = 0" by (simp add: contribution_def rank_in_absent)
next
  fix res
  assume "res \<in> set (rankFusion now rows keywordRanked vectorRanked limit)"
  then have "res \<in> set (fuse_all now rows keywordRanked vectorRanked)"
    unfolding rankFusion_def by (rule in_set_takeD)
  then obtain f where f: "f \<in> set keywordRanked \<union> set vectorRanked"
    and res: "res = fused_result now rows keywordRanked vectorRanked f"
    unfolding set_fuse_all by blast
  show "res_id res \<in> set keywordRanked \<union> set vectorRanked" using f res by (simp add: fused_result_def)
  show "res_timestamp res = row_timestamp (rows (res_id res))" using res by (simp add: fused_result_def)
  show "res_score res
             = (contribution keywordRanked (res_id res) + contribution vectorRanked (res_id res))
               * 2 powr (- ((now - res_timestamp res) / 86400000) / 7)"
    using res by (simp add: fused_result_def recency_decay_def ageInDays_def HALF_LIFE_DAYS_def)
next
  show "sorted_wrt outranks (rankFusion now rows keywordRanked vectorRanked limit)"
    unfolding rankFusion_def fuse_all_def by (intro sorted_wrt_take sorted_rank_all)
next
  show "rankFusion now rows keywordRanked vectorRanked None
       = take 5 (fuse_all now rows keywordRanked vectorRanked)"
    by (simp add: rankFusion_def DEFAULT_LIMIT_def)
next
  show "rankFusion now rows keywordRanked vectorRanked (Some l)
       = take l (fuse_all now rows keywordRanked vectorRanked)"
    by (simp add: rankFusion_def)
next
  show "res_id ` set (fuse_all now rows keywordRanked vectorRanked) = set keywordRanked \<union> set vectorRanked"
    unfolding set_fuse_all by (auto simp: fused_result_def image_iff)
next
  fix a b
  assume "a \<in> set (take n (fuse_all now rows keywordRanked vectorRanked))"
    and "b \<in> set (drop n (fuse_all now rows keywordRanked vectorRanked))"
  then show "outranks a b"
    using sorted_rank_all [of "map (fused_result now rows keywordRanked vectorRanked)
                   (remdups (keywordRanked @ vectorRanked))"]
    unfolding fuse_all_def by (intro sorted_take_drop [of outranks]) auto
qed

lemma demo_fused:
  "fuse_all 604800000 demo_rows [1, 2] [2, 3]
     = [fused_result 604800000 demo_rows [1, 2] [2, 3] 2,
        fused_result 604800000 demo_rows [1, 2] [2, 3] 3,
        fused_result 604800000 demo_rows [1, 2] [2, 3] 1]"
  by (simp add: fuse_all_def rank_all_def outranks_def fused_result_def contribution_def
        recency_decay_def ageInDays_def RRF_K_def HALF_LIFE_DAYS_def demo_rows_def powr_neg_one)

text \<open>
  A run of C4: the keyword list is 1, 2 and the vector list is 2, 3. Fragment 2 is in both
  lists and comes first; fragment 1 has the better position of the other two and comes last,
  because it is seven days old and its score is halved.
\<close>

theorem rankFusion_ranking_witness:
  "map res_id (rankFusion 604800000 demo_rows [1, 2] [2, 3] None) = [2, 3, 1]
   \<and> map res_score (rankFusion 604800000 demo_rows [1, 2] [2, 3] None) = [1 / 62 + 1 / 61, 1 / 62, 1 / 122]
   \<and> map res_id (rankFusion 604800000 demo_rows [1, 2] [2, 3] (Some 2)) = [2, 3]
   \<and> contribution [1, 2] ([1, 2] ! 1) = 1 / 62"
proof -
  note inst = rankFusion_ranking [of 1 "[1, 2]" 7 604800000 demo_rows "[1, 2]" "[2, 3]" None 2 3]
  have 1: "rankFusion 604800000 demo_rows [1, 2] [2, 3] None = take 5 (fuse_all 604800000 demo_rows [1, 2] [2, 3])"
    using inst by blast
  have 2: "contribution [1, 2] ([1, 2] ! 1) = 1 / (60 + real (1 + 1))"
    using inst by simp
  have 3: "rankFusion 604800000 demo_rows [1, 2] [2, 3] (Some 2) = take 2 (fuse_all 604800000 demo_rows [1, 2] [2, 3])"
    using inst by blast
  show ?thesis
    unfolding 1 3 demo_fused using 2
    by (simp add: fused_result_def contribution_def recency_decay_def ageInDays_def RRF_K_def
          HALF_LIFE_DAYS_def demo_rows_def powr_neg_one)
qed


end
